theory Spec2Isabelle
  imports Complex_Main "HOL-Library.Sublist"
begin

section \<open>JavaScript strings and arrays\<close>

text \<open>
  A JavaScript string is modelled as a \<^typ>\<open>string\<close>, one \<^typ>\<open>char\<close> per code unit
  (the Latin-1 range of UTF-16).  \<open>js_split s sep\<close> is \<^verbatim>\<open>s.split(sep)\<close> for a string
  separator: the text is cut at every occurrence of the separator, scanning from the left,
  and the empty text gives one empty piece.  With the empty separator the text is cut
  into its code units.
\<close>

function js_split_from :: "string \<Rightarrow> string \<Rightarrow> string \<Rightarrow> string list" where
  "js_split_from sep cur [] = [cur]"
| "js_split_from sep cur (c # cs) =
     (if sep \<noteq> [] \<and> prefix sep (c # cs)
      then cur # js_split_from sep [] (drop (length sep) (c # cs))
      else js_split_from sep (cur @ [c]) cs)"
  by pat_completeness auto
termination
  by (relation "measure (\<lambda>(sep, cur, s). length s)") auto

definition js_split :: "string \<Rightarrow> string \<Rightarrow> string list" where
  "js_split s sep = (if sep = [] then map (\<lambda>c. [c]) s else js_split_from sep [] s)"

text \<open>\<^verbatim>\<open>xs.join(sep)\<close>: the empty array gives the empty string.\<close>

fun js_join :: "string list \<Rightarrow> string \<Rightarrow> string" where
  "js_join [] sep = []"
| "js_join [x] sep = x"
| "js_join (x # y # ys) sep = x @ sep @ js_join (y # ys) sep"

definition newline :: char where
  "newline = CHR 0x0A"

definition blank_line :: string where
  "blank_line = [newline, newline]"

section \<open>Chunker\<close>

text \<open>
  \<^verbatim>\<open>chunkText(text, maxTokens)\<close>.  The tokenizer \<^verbatim>\<open>encode\<close> belongs to the package
  gpt-3-encoder and is a parameter; only the number of tokens it returns is used.

  The inner loop over the words of a paragraph that is too long: \<open>chunks\<close> is the
  array of finished segments, \<open>tempChunk\<close> the words collected so far and
  \<open>tempLength\<close> their token count (each word counted with one trailing space).
\<close>

fun word_loop ::
  "(string \<Rightarrow> 't list) \<Rightarrow> nat \<Rightarrow> string list \<Rightarrow> string list \<Rightarrow> string list \<Rightarrow> nat \<Rightarrow> string list"
where
  "word_loop encode maxTokens [] chunks tempChunk tempLength =
     (if tempChunk \<noteq> [] then chunks @ [js_join tempChunk '' ''] else chunks)"
| "word_loop encode maxTokens (word # words) chunks tempChunk tempLength =
     (let wordTokens = length (encode (word @ '' ''))
      in if tempLength + wordTokens \<le> maxTokens
         then word_loop encode maxTokens words chunks (tempChunk @ [word]) (tempLength + wordTokens)
         else word_loop encode maxTokens words
                (chunks @ [js_join tempChunk '' '']) [word] wordTokens)"

text \<open>
  The outer loop over the paragraphs: \<open>currentChunk\<close> holds the paragraphs collected
  so far and \<open>currentLength\<close> the sum of their token counts.
\<close>

fun paragraph_loop ::
  "(string \<Rightarrow> 't list) \<Rightarrow> nat \<Rightarrow> string list \<Rightarrow> string list \<Rightarrow> string list \<Rightarrow> nat \<Rightarrow> string list"
where
  "paragraph_loop encode maxTokens [] chunks currentChunk currentLength =
     (if currentChunk \<noteq> [] then chunks @ [js_join currentChunk blank_line] else chunks)"
| "paragraph_loop encode maxTokens (paragraph # paragraphs) chunks currentChunk currentLength =
     (let paragraphTokens = encode paragraph
      in if currentLength + length paragraphTokens \<le> maxTokens
         then paragraph_loop encode maxTokens paragraphs chunks
                (currentChunk @ [paragraph]) (currentLength + length paragraphTokens)
         else if currentChunk \<noteq> []
         then paragraph_loop encode maxTokens paragraphs
                (chunks @ [js_join currentChunk blank_line]) [paragraph] (length paragraphTokens)
         else paragraph_loop encode maxTokens paragraphs
                (word_loop encode maxTokens (js_split paragraph '' '') chunks [] 0)
                currentChunk currentLength)"

definition chunkText :: "(string \<Rightarrow> 't list) \<Rightarrow> string \<Rightarrow> nat \<Rightarrow> string list" where
  "chunkText encode text maxTokens =
     (let tokens = encode text
      in if length tokens \<le> maxTokens then [text]
         else paragraph_loop encode maxTokens (js_split text blank_line) [] [] 0)"

text \<open>
  A concrete tokenizer for closed evaluations: byte-pair encoding with an empty merge
  table, which gives one token per code unit.
\<close>

definition byte_encode :: "string \<Rightarrow> nat list" where
  "byte_encode s = map of_char s"

section \<open>JavaScript numbers and sorting\<close>

text \<open>
  Numbers are IEEE 754 doubles.  A finite double is modelled by the real number it denotes
  (\<open>Num\<close>; the sign of zero is not kept), next to the two infinities and \<open>NaN\<close>.  Every
  operation computes the exact result and rounds it with \<open>to_double\<close>: to the nearest
  double, ties to the even significand, in steps of \<open>two_pow (- 1074)\<close> below
  \<open>two_pow (- 1022)\<close> (gradual underflow) and to an infinity from \<open>two_pow 1024\<close> on
  (overflow).
\<close>

datatype jsnum = Num real | PosInf | NegInf | NaN

definition two_pow :: "int \<Rightarrow> real" where
  "two_pow e = (if 0 \<le> e then 2 ^ nat e else 1 / 2 ^ nat (- e))"

definition round_half_even :: "real \<Rightarrow> int" where
  "round_half_even y =
     (let f = \<lfloor>y\<rfloor>
      in if y - of_int f < 1 / 2 then f
         else if 1 / 2 < y - of_int f then f + 1
         else if even f then f else f + 1)"

definition binary_exponent :: "real \<Rightarrow> int" where
  "binary_exponent x = \<lfloor>log 2 \<bar>x\<bar>\<rfloor>"

definition to_double :: "real \<Rightarrow> jsnum" where
  "to_double x =
     (if x = 0 then Num 0
      else
        (let e = max (binary_exponent x - 52) (- 1074);
             y = of_int (round_half_even (x / two_pow e)) * two_pow e
         in if two_pow 1024 \<le> \<bar>y\<bar> then (if 0 < x then PosInf else NegInf) else Num y))"

fun js_add :: "jsnum \<Rightarrow> jsnum \<Rightarrow> jsnum" where
  "js_add (Num a) (Num b) = to_double (a + b)"
| "js_add NaN y = NaN"
| "js_add x NaN = NaN"
| "js_add PosInf NegInf = NaN"
| "js_add NegInf PosInf = NaN"
| "js_add PosInf y = PosInf"
| "js_add x PosInf = PosInf"
| "js_add NegInf y = NegInf"
| "js_add x NegInf = NegInf"

fun js_neg :: "jsnum \<Rightarrow> jsnum" where
  "js_neg (Num a) = Num (- a)"
| "js_neg PosInf = NegInf"
| "js_neg NegInf = PosInf"
| "js_neg NaN = NaN"

definition js_sub :: "jsnum \<Rightarrow> jsnum \<Rightarrow> jsnum" where
  "js_sub x y = js_add x (js_neg y)"

fun js_mul :: "jsnum \<Rightarrow> jsnum \<Rightarrow> jsnum" where
  "js_mul (Num a) (Num b) = to_double (a * b)"
| "js_mul NaN y = NaN"
| "js_mul x NaN = NaN"
| "js_mul (Num a) PosInf = (if a = 0 then NaN else if 0 < a then PosInf else NegInf)"
| "js_mul (Num a) NegInf = (if a = 0 then NaN else if 0 < a then NegInf else PosInf)"
| "js_mul PosInf (Num b) = (if b = 0 then NaN else if 0 < b then PosInf else NegInf)"
| "js_mul NegInf (Num b) = (if b = 0 then NaN else if 0 < b then NegInf else PosInf)"
| "js_mul PosInf PosInf = PosInf"
| "js_mul PosInf NegInf = NegInf"
| "js_mul NegInf PosInf = NegInf"
| "js_mul NegInf NegInf = PosInf"

text \<open>
  Division.  \<open>0 / 0\<close> and the quotient of two infinities are \<open>NaN\<close>; any other number
  divided by zero is an infinity.  A zero divisor is taken to be \<open>+0\<close>: the divisors of this
  program are products of square roots.
\<close>

fun js_div :: "jsnum \<Rightarrow> jsnum \<Rightarrow> jsnum" where
  "js_div (Num a) (Num b) =
     (if b \<noteq> 0 then to_double (a / b)
      else if a = 0 then NaN
      else if 0 < a then PosInf else NegInf)"
| "js_div NaN y = NaN"
| "js_div x NaN = NaN"
| "js_div (Num a) PosInf = Num 0"
| "js_div (Num a) NegInf = Num 0"
| "js_div PosInf (Num b) = (if b < 0 then NegInf else PosInf)"
| "js_div NegInf (Num b) = (if b < 0 then PosInf else NegInf)"
| "js_div PosInf y = NaN"
| "js_div NegInf y = NaN"

text \<open>\<^verbatim>\<open>Math.sqrt\<close>, the correctly rounded square root of the processor.\<close>

fun js_sqrt :: "jsnum \<Rightarrow> jsnum" where
  "js_sqrt (Num a) = (if a < 0 then NaN else to_double (sqrt a))"
| "js_sqrt PosInf = PosInf"
| "js_sqrt NegInf = NaN"
| "js_sqrt NaN = NaN"

text \<open>\<^verbatim>\<open>xs[i]\<close> on an array: \<open>None\<close> is \<^verbatim>\<open>undefined\<close>.\<close>

definition js_index :: "'a list \<Rightarrow> nat \<Rightarrow> 'a option" where
  "js_index xs i = (if i < length xs then Some (xs ! i) else None)"

text \<open>
  \<^verbatim>\<open>xs.sort(cmp)\<close>.  The sort of the language is stable, and the value a comparator
  returns is read by its sign, \<open>NaN\<close> counting as zero (\<open>cmp_value\<close>).  For a consistent
  comparator the result is fixed by these two facts, and insertion from the right computes
  it; for an inconsistent one the language leaves the order to the implementation.
\<close>

fun cmp_value :: "jsnum \<Rightarrow> real" where
  "cmp_value (Num r) = r"
| "cmp_value PosInf = 1"
| "cmp_value NegInf = - 1"
| "cmp_value NaN = 0"

fun js_insert :: "('a \<Rightarrow> 'a \<Rightarrow> real) \<Rightarrow> 'a \<Rightarrow> 'a list \<Rightarrow> 'a list" where
  "js_insert cmp x [] = [x]"
| "js_insert cmp x (y # ys) = (if cmp x y \<le> 0 then x # y # ys else y # js_insert cmp x ys)"

definition js_sort :: "('a \<Rightarrow> 'a \<Rightarrow> real) \<Rightarrow> 'a list \<Rightarrow> 'a list" where
  "js_sort cmp xs = foldr (js_insert cmp) xs []"

section \<open>Lexical ranker\<close>

text \<open>The character classes \<^verbatim>\<open>\w\<close> and \<^verbatim>\<open>\s\<close> and \<^verbatim>\<open>toLowerCase\<close>, on one code unit.\<close>

definition js_word_char :: "char \<Rightarrow> bool" where
  "js_word_char c =
     (let n = (of_char c :: nat)
      in (48 \<le> n \<and> n \<le> 57) \<or> (65 \<le> n \<and> n \<le> 90) \<or> n = 95 \<or> (97 \<le> n \<and> n \<le> 122))"

definition js_space :: "char \<Rightarrow> bool" where
  "js_space c = ((of_char c :: nat) \<in> {9, 10, 11, 12, 13, 32, 160})"

definition toLowerCase :: "char \<Rightarrow> char" where
  "toLowerCase c =
     (let n = (of_char c :: nat)
      in if (65 \<le> n \<and> n \<le> 90) \<or> (192 \<le> n \<and> n \<le> 222 \<and> n \<noteq> 215)
         then char_of (n + 32) else c)"

text \<open>\<^verbatim>\<open>s.split(/\s+/)\<close>: the text is cut at every maximal run of white space.\<close>

function split_spaces_from :: "string \<Rightarrow> string \<Rightarrow> string list" where
  "split_spaces_from cur [] = [cur]"
| "split_spaces_from cur (c # cs) =
     (if js_space c then cur # split_spaces_from [] (dropWhile js_space cs)
      else split_spaces_from (cur @ [c]) cs)"
  by pat_completeness auto
termination
  by (relation "measure (\<lambda>(cur, s). length s)") (auto simp: length_dropWhile_le le_imp_less_Suc)

definition tokenize :: "string \<Rightarrow> string list" where
  "tokenize text =
     filter (\<lambda>token. length token > 2)
       (split_spaces_from []
          (map (\<lambda>c. if js_word_char c \<or> js_space c then c else CHR '' '')
             (map toLowerCase text)))"

text \<open>
  \<^verbatim>\<open>class BM25Ranker\<close>.  A document is any value with string-valued properties, read by
  \<open>get\<close> (\<open>None\<close> when the property is absent).  The class \<^verbatim>\<open>BM25\<close> is imported from
  another package: the model it builds from a corpus is represented by that corpus, and its
  method \<^verbatim>\<open>score(queryTokens, idx)\<close> is the parameter \<open>bm25_score\<close>, taken to return a
  finite number.  \<open>fieldWeights\<close> lists the properties of the weight object in key order.
  \<open>bm25Models\<close> is read at the configured fields only.
\<close>

definition field_text :: "('doc \<Rightarrow> string \<Rightarrow> string option) \<Rightarrow> 'doc \<Rightarrow> string \<Rightarrow> string" where
  "field_text get doc field = (case get doc field of None \<Rightarrow> [] | Some v \<Rightarrow> v)"

record 'doc ranker =
  fieldWeights :: "(string \<times> real) list"
  corpus_documents :: "'doc list"
  bm25Models :: "string \<Rightarrow> string list list"

definition BM25Ranker ::
  "('doc \<Rightarrow> string \<Rightarrow> string option) \<Rightarrow> 'doc list \<Rightarrow> (string \<times> real) list \<Rightarrow> 'doc ranker"
where
  "BM25Ranker get docs weights =
     \<lparr> fieldWeights = weights,
       corpus_documents = docs,
       bm25Models = (\<lambda>field. map (\<lambda>doc. tokenize (field_text get doc field)) docs) \<rparr>"

definition document_score ::
  "(string list list \<Rightarrow> string list \<Rightarrow> nat \<Rightarrow> real) \<Rightarrow> 'doc ranker \<Rightarrow> string list \<Rightarrow> nat \<Rightarrow> real"
where
  "document_score bm25_score r queryTokens idx =
     fold (\<lambda>(field, weight) score.
             score + bm25_score (bm25Models r field) queryTokens idx * weight)
          (fieldWeights r) 0"

definition scored_documents ::
  "(string list list \<Rightarrow> string list \<Rightarrow> nat \<Rightarrow> real) \<Rightarrow> 'doc ranker \<Rightarrow> string \<Rightarrow> ('doc \<times> real) list"
where
  "scored_documents bm25_score r query =
     map (\<lambda>(idx, doc). (doc, document_score bm25_score r (tokenize query) idx))
         (enumerate 0 (corpus_documents r))"

definition search ::
  "(string list list \<Rightarrow> string list \<Rightarrow> nat \<Rightarrow> real) \<Rightarrow> 'doc ranker \<Rightarrow> string \<Rightarrow> nat \<Rightarrow> 'doc list"
where
  "search bm25_score r query topK =
     map fst
       (filter (\<lambda>item. snd item > 0)
          (take topK
             (js_sort (\<lambda>a b. snd b - snd a) (scored_documents bm25_score r query))))"

text \<open>
  Modelled from the spec: the class \<^verbatim>\<open>BM25\<close>, which the source imports from a package
  and which is not among the sources of the repository.  Section 4.2 of the specification:
  ``BM25 scoring itself follows the standard term-frequency/inverse-document-frequency
  formulation with saturation and document-length normalization; field-level models are
  independent (separate document-frequency statistics per field)''.  The model is built
  from the corpus of one field; \<open>k1\<close> (saturation) and \<open>b\<close> (length normalization) are the
  two constants of the formulation.  The score of a document is the sum over the query
  tokens; a token that does not occur in the document adds nothing, so that with
  \<open>0 \<le> k1\<close> and \<open>0 \<le> b \<le> 1\<close> no quotient with a zero divisor is formed.
\<close>

definition term_frequency :: "string \<Rightarrow> string list \<Rightarrow> nat" where
  "term_frequency t d = count_list d t"

definition document_frequency :: "string list list \<Rightarrow> string \<Rightarrow> nat" where
  "document_frequency corpus t = length (filter (\<lambda>d. t \<in> set d) corpus)"

definition average_length :: "string list list \<Rightarrow> real" where
  "average_length corpus = (\<Sum>d \<leftarrow> corpus. real (length d)) / real (length corpus)"

definition inverse_document_frequency :: "string list list \<Rightarrow> string \<Rightarrow> real" where
  "inverse_document_frequency corpus t =
     ln (1 + (real (length corpus) - real (document_frequency corpus t) + 1 / 2)
              / (real (document_frequency corpus t) + 1 / 2))"

definition bm25_term :: "real \<Rightarrow> real \<Rightarrow> string list list \<Rightarrow> string list \<Rightarrow> string \<Rightarrow> real" where
  "bm25_term k1 b corpus d t =
     (if term_frequency t d = 0 then 0
      else inverse_document_frequency corpus t
             * (real (term_frequency t d) * (k1 + 1))
             / (real (term_frequency t d)
                  + k1 * (1 - b + b * real (length d) / average_length corpus)))"

definition bm25_standard ::
  "real \<Rightarrow> real \<Rightarrow> string list list \<Rightarrow> string list \<Rightarrow> nat \<Rightarrow> real"
where
  "bm25_standard k1 b corpus queryTokens idx =
     (case js_index corpus idx of
        None \<Rightarrow> 0
      | Some d \<Rightarrow> (\<Sum>t \<leftarrow> queryTokens. bm25_term k1 b corpus d t))"

text \<open>
  \<^verbatim>\<open>tokenize\<close> applied to a value that may be \<^verbatim>\<open>undefined\<close>: reading
  \<^verbatim>\<open>text.toLowerCase\<close> of \<^verbatim>\<open>undefined\<close> raises a TypeError.
\<close>

datatype js_error = TypeError

definition tokenize_value :: "string option \<Rightarrow> js_error + string list" where
  "tokenize_value v = (case v of None \<Rightarrow> Inl TypeError | Some text \<Rightarrow> Inr (tokenize text))"

section \<open>Knowledge base\<close>

text \<open>
  The objects pushed on \<^verbatim>\<open>this.documents\<close> and \<^verbatim>\<open>this.vectorStore\<close>; both carry
  a \<open>url\<close>.  \<open>document_field\<close> is the property lookup \<^verbatim>\<open>doc[field]\<close> on a document.
\<close>

record located =
  url :: string

record document = located +
  title :: string
  content :: string
  source :: string

record vector_entry = located +
  embedding :: "real list"

definition document_field :: "document \<Rightarrow> string \<Rightarrow> string option" where
  "document_field d field =
     (if field = ''url'' then Some (url d)
      else if field = ''title'' then Some (title d)
      else if field = ''content'' then Some (content d)
      else if field = ''source'' then Some (source d)
      else None)"

text \<open>
  A descriptor returned by \<^verbatim>\<open>exploreInteractiveElements\<close>: \<open>element_handle\<close> names the
  element reference of the browser, the other fields are \<^verbatim>\<open>text\<close>, \<^verbatim>\<open>category\<close>,
  \<^verbatim>\<open>tagName\<close> and \<^verbatim>\<open>selector\<close>.
\<close>

record element =
  element_handle :: nat
  element_text :: string
  category :: string
  tagName :: string
  selector :: string

text \<open>
  The state of a \<^verbatim>\<open>DynamicWebsiteRAG\<close> object that the functions below read or write.
\<close>

record rag =
  vectorStore :: "vector_entry list"
  documents :: "document list"
  interactiveElementsMap :: "string \<Rightarrow> element list option"

section \<open>Semantic search\<close>

text \<open>
  \<^verbatim>\<open>cosineSimilarity(vecA, vecB)\<close>.  The entries of a vector are finite doubles.  Reading
  \<^verbatim>\<open>vecB[i]\<close> past the end gives \<^verbatim>\<open>undefined\<close>, and the product with it is \<open>NaN\<close>.
\<close>

definition dotProduct :: "real list \<Rightarrow> real list \<Rightarrow> jsnum" where
  "dotProduct vecA vecB =
     fold (\<lambda>(i, a) sum.
             js_add sum (case js_index vecB i of None \<Rightarrow> NaN | Some b \<Rightarrow> js_mul (Num a) (Num b)))
          (enumerate 0 vecA) (Num 0)"

definition magnitude :: "real list \<Rightarrow> jsnum" where
  "magnitude vec = js_sqrt (fold (\<lambda>a sum. js_add sum (js_mul (Num a) (Num a))) vec (Num 0))"

definition cosineSimilarity :: "real list \<Rightarrow> real list \<Rightarrow> jsnum" where
  "cosineSimilarity vecA vecB =
     (let magA = magnitude vecA; magB = magnitude vecB
      in js_div (dotProduct vecA vecB) (js_mul magA magB))"

text \<open>
  \<^verbatim>\<open>semanticSearch(query, topK)\<close>.  \<open>createEmbedding\<close> is the call of the embedding
  service, already wrapped by the method of that name: \<open>None\<close> is its \<^verbatim>\<open>null\<close>.  The
  world \<open>w\<close> stands for everything outside the process.  An index with no document gives
  \<^verbatim>\<open>undefined\<close>, here \<open>None\<close>.
\<close>

definition semanticSearch ::
  "(string \<Rightarrow> 'w \<Rightarrow> real list option \<times> 'w) \<Rightarrow> rag \<Rightarrow> string \<Rightarrow> nat \<Rightarrow> 'w \<Rightarrow> document option list"
where
  "semanticSearch createEmbedding st query topK w =
     (case fst (createEmbedding query w) of
        None \<Rightarrow> []
      | Some queryEmbedding \<Rightarrow>
          (let similarities =
                 map (\<lambda>(idx, item). (idx, cosineSimilarity queryEmbedding (embedding item)))
                     (enumerate 0 (vectorStore st))
           in map (\<lambda>item. js_index (documents st) (fst item))
                (take topK
                   (js_sort (\<lambda>a b. cmp_value (js_sub (snd b) (snd a))) similarities))))"

section \<open>Hybrid fusion\<close>

text \<open>
  The \<^verbatim>\<open>Map\<close> of the fusion, in insertion order: \<open>map_set\<close> overwrites the value of a
  key that is present and keeps its place, and appends a new key.
\<close>

record combined =
  doc :: document
  score :: real
  inBoth :: bool

fun map_set :: "('k \<times> 'v) list \<Rightarrow> 'k \<Rightarrow> 'v \<Rightarrow> ('k \<times> 'v) list" where
  "map_set [] k v = [(k, v)]"
| "map_set ((k', v') # m) k v = (if k' = k then (k, v) # m else (k', v') # map_set m k v)"

definition result_key :: "document \<Rightarrow> string" where
  "result_key d = url d @ take 50 (content d)"

definition add_semantic :: "document \<Rightarrow> (string \<times> combined) list \<Rightarrow> (string \<times> combined) list" where
  "add_semantic d combinedResults =
     map_set combinedResults (result_key d) \<lparr> doc = d, score = 1.0, inBoth = False \<rparr>"

definition add_bm25 :: "document \<Rightarrow> (string \<times> combined) list \<Rightarrow> (string \<times> combined) list" where
  "add_bm25 d combinedResults =
     (let key = result_key d
      in case map_of combinedResults key of
           Some existing \<Rightarrow>
             map_set combinedResults key (existing\<lparr> score := score existing + 1.0, inBoth := True \<rparr>)
         | None \<Rightarrow> map_set combinedResults key \<lparr> doc = d, score = 0.5, inBoth = False \<rparr>)"

definition compare_combined :: "combined \<Rightarrow> combined \<Rightarrow> real" where
  "compare_combined a b =
     (if inBoth a \<noteq> inBoth b then (if inBoth a then - 1 else 1)
      else score b - score a)"

text \<open>
  The second half of \<^verbatim>\<open>hybridSearch\<close>, from the two result arrays to the ranked list.
\<close>

definition combine_results :: "document list \<Rightarrow> document list \<Rightarrow> (string \<times> combined) list" where
  "combine_results semanticResults bm25Results =
     fold add_bm25 bm25Results (fold add_semantic semanticResults [])"

definition fuse :: "document list \<Rightarrow> document list \<Rightarrow> nat \<Rightarrow> document list" where
  "fuse semanticResults bm25Results topK =
     take topK
       (map doc (js_sort compare_combined (map snd (combine_results semanticResults bm25Results))))"

text \<open>
  \<^verbatim>\<open>hybridSearch(query, topK)\<close>.  Reading \<^verbatim>\<open>doc.url\<close> of an \<^verbatim>\<open>undefined\<close> semantic
  result raises a TypeError that nothing catches: the result is \<open>None\<close>.
\<close>

definition hybridSearch ::
  "(string \<Rightarrow> 'w \<Rightarrow> real list option \<times> 'w) \<Rightarrow>
   (string list list \<Rightarrow> string list \<Rightarrow> nat \<Rightarrow> real) \<Rightarrow>
   rag \<Rightarrow> string \<Rightarrow> nat \<Rightarrow> 'w \<Rightarrow> document list option"
where
  "hybridSearch createEmbedding bm25_score st query topK w =
     (let semanticResults = semanticSearch createEmbedding st query (topK * 2) w;
          bm25Ranker = BM25Ranker document_field (documents st) [(''title'', 2), (''content'', 1)];
          bm25Results = search bm25_score bm25Ranker query (topK * 2)
      in case those semanticResults of
           None \<Rightarrow> None
         | Some found \<Rightarrow> Some (fuse found bm25Results topK))"

text \<open>
  What the map of the fusion holds once the keys \<open>semanticKeys\<close> were added by the first
  loop and the keys \<open>bm25Keys\<close>, each once, by the second: every entry is stored under the
  key of its document, and is marked exactly when its key was added by both loops.
\<close>

definition fusion_inv ::
  "string set \<Rightarrow> string set \<Rightarrow> (string \<times> combined) list \<Rightarrow> bool"
where
  "fusion_inv semanticKeys bm25Keys m \<longleftrightarrow>
     distinct (map fst m) \<and> fst ` set m = semanticKeys \<union> bm25Keys \<and>
     (\<forall>e \<in> set m. result_key (doc (snd e)) = fst e \<and>
                   (inBoth (snd e) \<longleftrightarrow> fst e \<in> semanticKeys \<and> fst e \<in> bm25Keys))"

section \<open>Knowledge-base import\<close>

text \<open>
  \<^verbatim>\<open>importKnowledgeBase(filePath)\<close>.  The file system \<open>fs\<close> gives the text of a file
  (\<open>None\<close> when \<^verbatim>\<open>readFileSync\<close> raises) and \<open>parse\<close> is \<^verbatim>\<open>JSON.parse\<close> (\<open>None\<close> when it
  raises).  A parsed value is \<^verbatim>\<open>null\<close>, or a value whose properties \<^verbatim>\<open>documents\<close> and
  \<^verbatim>\<open>vectorStore\<close> are each an array of entries or absent (or falsy); a value that is
  not an object has neither property.  Arrays of other shapes are outside this typed model.
  Reading a property of \<^verbatim>\<open>null\<close> raises, which the \<^verbatim>\<open>catch\<close> turns into \<^verbatim>\<open>false\<close>.
\<close>

datatype parsed = JNull | JValue "document list option" "vector_entry list option"

definition or_empty :: "'a list option \<Rightarrow> 'a list" where
  "or_empty v = (case v of None \<Rightarrow> [] | Some xs \<Rightarrow> xs)"

definition importKnowledgeBase ::
  "(string \<Rightarrow> string option) \<Rightarrow> (string \<Rightarrow> parsed option) \<Rightarrow> string \<Rightarrow> rag \<Rightarrow> bool \<times> rag"
where
  "importKnowledgeBase fs parse filePath st =
     (case fs filePath of
        None \<Rightarrow> (False, st)
      | Some text \<Rightarrow>
          (case parse text of
             None \<Rightarrow> (False, st)
           | Some JNull \<Rightarrow> (False, st)
           | Some (JValue docs vecs) \<Rightarrow>
               (True, st\<lparr> documents := or_empty docs, vectorStore := or_empty vecs \<rparr>)))"

section \<open>Dynamic crawler\<close>

text \<open>
  The browser, the embedding service and the libraries are collaborators.  Each call that
  leaves the process takes the world \<open>'w\<close> and returns it changed; \<open>'p\<close> is a browsing
  context with its page.
  \<^item> \<open>openPage\<close>: \<^verbatim>\<open>initialize\<close> when no browser is running, \<^verbatim>\<open>newContext\<close>, \<^verbatim>\<open>newPage\<close>
    and \<^verbatim>\<open>setDefaultTimeout\<close>; \<open>None\<close> when one of them raises (outside the \<^verbatim>\<open>try\<close>).
  \<^item> \<open>navigate\<close>: \<^verbatim>\<open>page.goto\<close> and \<^verbatim>\<open>captureAfterJSExecution\<close>; the HTML, or \<open>None\<close>
    when one of them raises.
  \<^item> \<open>interact\<close>: scroll to the element, click it, read \<^verbatim>\<open>page.url()\<close> and capture again;
    the new URL and HTML, or \<open>None\<close> when a step raises.
  \<^item> \<open>goBack\<close>: \<^verbatim>\<open>page.goBack\<close> and the capture after it; \<open>False\<close> when one raises.
  \<^item> \<open>pageLinks\<close>: the \<^verbatim>\<open>$$eval\<close> over the anchors; \<open>None\<close> when it raises.
  \<^item> \<open>hostname\<close>: \<^verbatim>\<open>new URL(x).hostname\<close>; \<open>None\<close> when the constructor raises.
  \<^item> \<open>closeContext\<close>: \<^verbatim>\<open>context.close()\<close>, taken to return.
  \<^item> \<open>createEmbedding\<close>: the method of that name, \<open>None\<close> for \<^verbatim>\<open>null\<close>.
  \<^item> \<open>htmlToMarkdown\<close> (over the package cheerio) and \<open>encode\<close> are pure.
\<close>

record ('w, 'p) env =
  openPage :: "'w \<Rightarrow> 'p option \<times> 'w"
  navigate :: "'p \<Rightarrow> string \<Rightarrow> 'w \<Rightarrow> string option \<times> 'w"
  exploreInteractiveElements :: "'p \<Rightarrow> 'w \<Rightarrow> element list \<times> 'w"
  interact :: "'p \<Rightarrow> element \<Rightarrow> 'w \<Rightarrow> (string \<times> string) option \<times> 'w"
  goBack :: "'p \<Rightarrow> string \<Rightarrow> 'w \<Rightarrow> bool \<times> 'w"
  pageLinks :: "'p \<Rightarrow> 'w \<Rightarrow> string list option \<times> 'w"
  hostname :: "string \<Rightarrow> string option"
  closeContext :: "'p \<Rightarrow> 'w \<Rightarrow> 'w"
  createEmbedding :: "string \<Rightarrow> 'w \<Rightarrow> real list option \<times> 'w"
  htmlToMarkdown :: "string \<Rightarrow> string"
  encode :: "string \<Rightarrow> nat list"

record options =
  maxInteractions :: nat
  maxTokens :: nat

text \<open>The two pushes made for one chunk whose embedding was obtained.\<close>

definition append_chunk :: "string \<Rightarrow> string \<Rightarrow> string \<Rightarrow> real list \<Rightarrow> rag \<Rightarrow> rag" where
  "append_chunk u src chunk emb st =
     st\<lparr> vectorStore := vectorStore st @ [\<lparr> url = u, embedding = emb \<rparr>],
         documents := documents st @ [\<lparr> url = u, title = u, content = chunk, source = src \<rparr>] \<rparr>"

text \<open>The loop over \<^verbatim>\<open>documentChunks\<close>: a chunk with no embedding is skipped.\<close>

fun add_chunks ::
  "('w, 'p) env \<Rightarrow> string \<Rightarrow> string \<Rightarrow> string list \<Rightarrow> rag \<times> 'w \<Rightarrow> rag \<times> 'w"
where
  "add_chunks E u src [] (st, w) = (st, w)"
| "add_chunks E u src (chunk # chunks) (st, w) =
     (case createEmbedding E chunk w of
        (None, w') \<Rightarrow> add_chunks E u src chunks (st, w')
      | (Some emb, w') \<Rightarrow> add_chunks E u src chunks (append_chunk u src chunk emb st, w'))"

text \<open>
  The interaction loop.  The state is \<^verbatim>\<open>interactionsCount\<close>, \<^verbatim>\<open>markdown\<close> (the text
  captured last), \<^verbatim>\<open>visitedUrls\<close>, the object and the world.
\<close>

fun interaction_loop ::
  "('w, 'p) env \<Rightarrow> options \<Rightarrow> 'p \<Rightarrow> string \<Rightarrow> int \<Rightarrow> element list \<Rightarrow>
   nat \<times> string \<times> string set \<times> rag \<times> 'w \<Rightarrow> nat \<times> string \<times> string set \<times> rag \<times> 'w"
where
  "interaction_loop E opts page u depth [] s = s"
| "interaction_loop E opts page u depth (el # els) (interactionsCount, markdown, visitedUrls, st, w) =
     (if interactionsCount \<ge> maxInteractions opts
      then (interactionsCount, markdown, visitedUrls, st, w)
      else case interact E page el w of
        (None, w1) \<Rightarrow>
          interaction_loop E opts page u depth els (interactionsCount, markdown, visitedUrls, st, w1)
      | (Some (newUrl, newHtml), w1) \<Rightarrow>
          (let newMarkdown = htmlToMarkdown E newHtml
           in if newMarkdown = markdown
              then interaction_loop E opts page u depth els
                     (interactionsCount, markdown, visitedUrls, st, w1)
              else
                (let documentChunks = chunkText (encode E) newMarkdown (maxTokens opts);
                     (st2, w2) =
                       add_chunks E newUrl
                         (''interaction:'' @ category el @ '':'' @ element_text el)
                         documentChunks (st, w1)
                 in if newUrl \<noteq> u \<and> depth > 0
                    then (case goBack E page u w2 of
                            (True, w3) \<Rightarrow>
                              interaction_loop E opts page u depth els
                                (interactionsCount + 1, newMarkdown, insert newUrl visitedUrls, st2, w3)
                          | (False, w3) \<Rightarrow>
                              interaction_loop E opts page u depth els
                                (interactionsCount, newMarkdown, insert newUrl visitedUrls, st2, w3))
                    else interaction_loop E opts page u depth els
                           (interactionsCount + 1, newMarkdown, visitedUrls, st2, w2))))"

text \<open>
  The body of the \<^verbatim>\<open>try\<close> up to the choice of the links to follow.  An exception ends
  the body with no link to follow.
\<close>

definition crawl_page ::
  "('w, 'p) env \<Rightarrow> options \<Rightarrow> 'p \<Rightarrow> string \<Rightarrow> int \<Rightarrow> string set \<times> rag \<times> 'w \<Rightarrow>
   string list \<times> string set \<times> rag \<times> 'w"
where
  "crawl_page E opts page u depth s =
     (case s of (visitedUrls, st, w) \<Rightarrow>
      (case navigate E page u w of
        (None, w1) \<Rightarrow> ([], visitedUrls, st, w1)
      | (Some html, w1) \<Rightarrow>
          (let markdown = htmlToMarkdown E html;
               documentChunks = chunkText (encode E) markdown (maxTokens opts);
               (st2, w2) = add_chunks E u ''initial'' documentChunks (st, w1);
               (interactiveElements, w3) = exploreInteractiveElements E page w2;
               st3 = st2\<lparr> interactiveElementsMap :=
                            (interactiveElementsMap st2)(u \<mapsto> interactiveElements) \<rparr>;
               (interactionsCount, markdown', visited4, st4, w4) =
                 interaction_loop E opts page u depth interactiveElements
                   (0, markdown, visitedUrls, st3, w3)
           in if depth > 0
              then (case pageLinks E page w4 of
                      (None, w5) \<Rightarrow> ([], visited4, st4, w5)
                    | (Some links, w5) \<Rightarrow>
                        (case hostname E u of
                           None \<Rightarrow> ([], visited4, st4, w5)
                         | Some currentDomain \<Rightarrow>
                             (take 5
                                (filter (\<lambda>link. hostname E link = Some currentDomain
                                                \<and> link \<notin> visited4) links),
                              visited4, st4, w5)))
              else ([], visited4, st4, w4))))"

text \<open>
  The loop over \<^verbatim>\<open>sameDomainLinks\<close>.  \<open>visit\<close> is the recursive call; it answers whether
  it raised.  An exception leaves the loop, and the \<^verbatim>\<open>catch\<close> of the caller absorbs it.
\<close>

fun follow_links ::
  "(string \<Rightarrow> 's \<Rightarrow> (bool \<times> 's) option) \<Rightarrow> string list \<Rightarrow> 's \<Rightarrow> 's option"
where
  "follow_links visit [] s = Some s"
| "follow_links visit (link # links) s =
     (case visit link s of
        None \<Rightarrow> None
      | Some (raised, s') \<Rightarrow> if raised then Some s' else follow_links visit links s')"

text \<open>
  \<^verbatim>\<open>crawlDynamicSite(url, depth, visitedUrls)\<close>.  The first argument bounds the depth of
  the call stack: \<open>None\<close> means that the bound was reached.  The result says whether the
  call raised, and gives \<^verbatim>\<open>visitedUrls\<close>, the object and the world after the call.
\<close>

fun crawlDynamicSite ::
  "nat \<Rightarrow> ('w, 'p) env \<Rightarrow> options \<Rightarrow> string \<Rightarrow> int \<Rightarrow> string set \<times> rag \<times> 'w \<Rightarrow>
   (bool \<times> string set \<times> rag \<times> 'w) option"
where
  "crawlDynamicSite 0 E opts u depth s = None"
| "crawlDynamicSite (Suc fuel) E opts u depth (visitedUrls, st, w) =
     (if u \<in> visitedUrls \<or> depth < 0 then Some (False, visitedUrls, st, w)
      else case openPage E w of
        (None, w1) \<Rightarrow> Some (True, insert u visitedUrls, st, w1)
      | (Some page, w1) \<Rightarrow>
          (case crawl_page E opts page u depth (insert u visitedUrls, st, w1) of
             (sameDomainLinks, s2) \<Rightarrow>
               (case follow_links (\<lambda>link s. crawlDynamicSite fuel E opts link (depth - 1) s)
                       sameDomainLinks s2 of
                  None \<Rightarrow> None
                | Some (visited3, st3, w3) \<Rightarrow>
                    Some (False, visited3, st3, closeContext E page w3))))"

text \<open>
  The invariant of the knowledge base: the two arrays have one length, and at every index
  the vector entry carries the URL of the document and an embedding that the service
  returned for the content of the document.
\<close>

definition aligned_arrays ::
  "(string \<Rightarrow> 'w \<Rightarrow> real list option \<times> 'w) \<Rightarrow> document list \<Rightarrow> vector_entry list \<Rightarrow> bool"
where
  "aligned_arrays embedder docs vecs \<longleftrightarrow>
     length vecs = length docs \<and>
     (\<forall>i < length docs.
        url (vecs ! i) = url (docs ! i) \<and>
        (\<exists>w. fst (embedder (content (docs ! i)) w) = Some (embedding (vecs ! i))))"

definition aligned :: "(string \<Rightarrow> 'w \<Rightarrow> real list option \<times> 'w) \<Rightarrow> rag \<Rightarrow> bool" where
  "aligned embedder st \<longleftrightarrow> aligned_arrays embedder (documents st) (vectorStore st)"

section \<open>Concrete instances for closed evaluations\<close>

text \<open>
  A scorer to evaluate the ranker with: the number of tokens of the document at \<open>idx\<close>
  that occur in the query.  Like BM25 it gives zero to a document without tokens.
\<close>

definition match_count :: "string list list \<Rightarrow> string list \<Rightarrow> nat \<Rightarrow> real" where
  "match_count corpus queryTokens idx =
     (case js_index corpus idx of
        None \<Rightarrow> 0
      | Some tokens \<Rightarrow> real (length (filter (\<lambda>t. t \<in> set queryTokens) tokens)))"

text \<open>The default of the constructor: \<^verbatim>\<open>{ title: 2, content: 1 }\<close>.\<close>

definition default_weights :: "(string \<times> real) list" where
  "default_weights = [(''title'', 2), (''content'', 1)]"

definition example_documents :: "document list" where
  "example_documents =
     [\<lparr> url = ''a'', title = ''Auth Guide'', content = ''login with OAuth tokens'',
        source = ''initial'' \<rparr>,
      \<lparr> url = ''b'', title = ''Pricing'', content = ''monthly subscription cost'',
        source = ''initial'' \<rparr>]"

text \<open>Two plain objects, read with \<^const>\<open>map_of\<close>; the first has no \<^verbatim>\<open>title\<close>.\<close>

definition untitled_documents :: "(string \<times> string) list list" where
  "untitled_documents =
     [[(''url'', ''a''), (''content'', ''login with OAuth tokens'')],
      [(''url'', ''b''), (''title'', ''OAuth''), (''content'', ''monthly subscription cost'')]]"

text \<open>
  A parser table and a file system with four files: a file that holds \<^verbatim>\<open>null\<close>, one
  that holds an empty object, one that is cut short, and a knowledge base with one document
  and no \<^verbatim>\<open>vectorStore\<close>.
\<close>

definition quoted :: "string \<Rightarrow> string" where
  "quoted s = [CHR 0x22] @ s @ [CHR 0x22]"

definition documents_only_text :: string where
  "documents_only_text =
     ''{'' @ quoted ''documents'' @ '':[{'' @
       quoted ''url'' @ '':'' @ quoted ''a'' @ '','' @
       quoted ''title'' @ '':'' @ quoted ''a'' @ '','' @
       quoted ''content'' @ '':'' @ quoted ''x'' @ '','' @
       quoted ''source'' @ '':'' @ quoted ''initial'' @ ''}]}''"

definition example_parse :: "string \<Rightarrow> parsed option" where
  "example_parse text =
     (if text = ''null'' then Some JNull
      else if text = ''{}'' then Some (JValue None None)
      else if text = documents_only_text
      then Some (JValue (Some [\<lparr> url = ''a'', title = ''a'', content = ''x'', source = ''initial'' \<rparr>])
                   None)
      else None)"

definition example_fs :: "string \<Rightarrow> string option" where
  "example_fs filePath =
     (if filePath = ''null.json'' then Some ''null''
      else if filePath = ''empty.json'' then Some ''{}''
      else if filePath = ''cut.json'' then Some ''{''
      else if filePath = ''documents.json'' then Some documents_only_text
      else None)"

definition empty_rag :: rag where
  "empty_rag = \<lparr> vectorStore = [], documents = [], interactiveElementsMap = Map.empty \<rparr>"

text \<open>
  A site of two pages on one host that link to each other.  The world is the URL the page
  shows.  The first page has two controls: the first reveals nothing, the second reveals
  new text.  The embedding of a text is a vector of one number, and the markdown of a page
  is its HTML.
\<close>

definition page_a :: string where
  "page_a = ''http://x/a''"

definition page_b :: string where
  "page_b = ''http://x/b''"

definition idle_control :: element where
  "idle_control = \<lparr> element_handle = 1, element_text = ''Same'', category = ''buttons'',
                     tagName = ''BUTTON'', selector = ''button:visible'' \<rparr>"

definition more_control :: element where
  "more_control = \<lparr> element_handle = 2, element_text = ''More'', category = ''buttons'',
                     tagName = ''BUTTON'', selector = ''button:visible'' \<rparr>"

definition example_site :: "(string, unit) env" where
  "example_site =
     \<lparr> openPage = (\<lambda>w. (Some (), w)),
       navigate = (\<lambda>p u w. if u = page_a \<or> u = page_b then (Some (''page '' @ u), u) else (None, w)),
       exploreInteractiveElements =
         (\<lambda>p w. (if w = page_a then [idle_control, more_control] else [], w)),
       interact =
         (\<lambda>p el w. (Some (w, if element_handle el = 2 then ''more of '' @ w else ''page '' @ w), w)),
       goBack = (\<lambda>p u w. (True, u)),
       pageLinks =
         (\<lambda>p w. (Some (if w = page_a then [page_b] else if w = page_b then [page_a] else []), w)),
       hostname = (\<lambda>u. if u = page_a \<or> u = page_b then Some ''x'' else None),
       closeContext = (\<lambda>p w. w),
       createEmbedding = (\<lambda>text w. (Some [real (length text)], w)),
       htmlToMarkdown = (\<lambda>html. html),
       encode = byte_encode \<rparr>"

definition example_options :: options where
  "example_options = \<lparr> maxInteractions = 1, maxTokens = 1000 \<rparr>"

text \<open>
  Four documents for the fusion: three captures of one page whose contents share their
  first 50 characters, and one document of another page.
\<close>

definition shared_heading :: string where
  "shared_heading = ''# Product documentation and frequently asked questions''"

definition faq_one :: document where
  "faq_one = \<lparr> url = ''u'', title = ''u'', content = shared_heading @ '' one'',
               source = ''initial'' \<rparr>"

definition faq_two :: document where
  "faq_two = \<lparr> url = ''u'', title = ''u'', content = shared_heading @ '' two'',
               source = ''interaction:tabs:Two'' \<rparr>"

definition faq_three :: document where
  "faq_three = \<lparr> url = ''u'', title = ''u'', content = shared_heading @ '' three'',
                 source = ''interaction:tabs:Three'' \<rparr>"

definition both_hit :: document where
  "both_hit = \<lparr> url = ''v'', title = ''v'', content = ''questions about pricing'',
                source = ''initial'' \<rparr>"

text \<open>
  A knowledge base of nine chunks holding these four documents and five others, with
  embeddings of two numbers, and an embedding service that knows one query.
\<close>

definition filler :: "string \<Rightarrow> document" where
  "filler u = \<lparr> url = u, title = u, content = ''release notes and changes'', source = ''initial'' \<rparr>"

definition fusion_rag :: rag where
  "fusion_rag =
     \<lparr> vectorStore =
         [\<lparr> url = ''v'', embedding = [1, 0] \<rparr>,
          \<lparr> url = ''p1'', embedding = [1, 0] \<rparr>,
          \<lparr> url = ''p2'', embedding = [1, 0] \<rparr>,
          \<lparr> url = ''p3'', embedding = [1, 0] \<rparr>,
          \<lparr> url = ''p4'', embedding = [0, 1] \<rparr>,
          \<lparr> url = ''p5'', embedding = [0, 1] \<rparr>,
          \<lparr> url = ''u'', embedding = [0, 1] \<rparr>,
          \<lparr> url = ''u'', embedding = [0, 1] \<rparr>,
          \<lparr> url = ''u'', embedding = [0, 1] \<rparr>],
       documents =
         [both_hit, filler ''p1'', filler ''p2'', filler ''p3'', filler ''p4'', filler ''p5'',
          faq_one, faq_two, faq_three],
       interactiveElementsMap = Map.empty \<rparr>"

definition query_service :: "string \<Rightarrow> unit \<Rightarrow> real list option \<times> unit" where
  "query_service text w = (if text = ''questions'' then Some [1, 0] else None, w)"

section \<open>Properties of the chunker\<close>

lemma split_hello_world_spaces: "js_split ''hello world'' '' '' = [''hello'', ''world'']"
  by (simp add: js_split_def)

lemma split_hello_world_paragraphs: "js_split ''hello world'' blank_line = [''hello world'']"
  by (simp add: js_split_def blank_line_def newline_def)

lemma split_two_paragraphs:
  "js_split (''a'' @ blank_line @ ''b c d e'') blank_line = [''a'', ''b c d e'']"
  by (simp add: js_split_def blank_line_def newline_def)

lemma split_four_words: "js_split ''b c d e'' '' '' = [''b'', ''c'', ''d'', ''e'']"
  by (simp add: js_split_def)

text \<open>A text within the limit is returned whole, the empty text included.\<close>

lemma chunkText_short_text:
  fixes encode :: "string \<Rightarrow> 't list" and maxTokens :: nat
  shows "length (encode text) \<le> maxTokens \<Longrightarrow> chunkText encode text maxTokens = [text]"
  by (simp add: chunkText_def)

text \<open>
  Claim C4 (every segment has at most \<open>maxTokens\<close> tokens, except a segment that is a
  single over-long word).  The code does not keep this bound: the word-by-word fallback for
  a paragraph that is too long is reached only while no chunk is pending.  On the text
  \<^verbatim>\<open>"a\n\nb c d e"\<close>, with any tokenizer that gives the first paragraph at most
  \<open>maxTokens\<close> tokens and the second more, the second paragraph is returned whole: a
  segment of four words with more than \<open>maxTokens\<close> tokens.
\<close>

theorem chunkText_oversize_paragraph:
  fixes encode :: "string \<Rightarrow> 't list" and maxTokens :: nat
  assumes "maxTokens < length (encode (''a'' @ blank_line @ ''b c d e''))"
    and "length (encode ''a'') \<le> maxTokens"
    and "maxTokens < length (encode ''b c d e'')"
  shows "chunkText encode (''a'' @ blank_line @ ''b c d e'') maxTokens = [''a'', ''b c d e''] \<and>
         maxTokens < length (encode (chunkText encode (''a'' @ blank_line @ ''b c d e'') maxTokens ! 1)) \<and>
         js_split (chunkText encode (''a'' @ blank_line @ ''b c d e'') maxTokens ! 1) '' '' =
           [''b'', ''c'', ''d'', ''e'']"
proof -
  have "chunkText encode (''a'' @ blank_line @ ''b c d e'') maxTokens = [''a'', ''b c d e'']"
    using assms unfolding chunkText_def Let_def split_two_paragraphs
    by simp
  then show ?thesis using assms(3) split_four_words by simp
qed

theorem chunkText_oversize_paragraph_witness:
  "2 < length (byte_encode (''a'' @ blank_line @ ''b c d e'')) \<and>
   length (byte_encode ''a'') \<le> 2 \<and> 2 < length (byte_encode ''b c d e'') \<and>
   chunkText byte_encode (''a'' @ blank_line @ ''b c d e'') 2 = [''a'', ''b c d e''] \<and>
   length (byte_encode (chunkText byte_encode (''a'' @ blank_line @ ''b c d e'') 2 ! 1)) = 7"
  using chunkText_oversize_paragraph [of 2 byte_encode]
  by (simp add: byte_encode_def blank_line_def)

text \<open>
  Claim C7 (no returned segment is the empty string).  The code returns an empty segment
  when the first word of a paragraph that is too long is itself too long: the push inside
  the word loop is not guarded by the test on \<open>tempChunk\<close> that guards the push after it.
  On the text \<^verbatim>\<open>"hello world"\<close>, with any tokenizer that gives the text and the first
  word (with its trailing space) more than \<open>maxTokens\<close> tokens, the first segment is empty.
\<close>

theorem chunkText_empty_segment:
  fixes encode :: "string \<Rightarrow> 't list" and maxTokens :: nat
  assumes "maxTokens < length (encode ''hello world'')"
    and "maxTokens < length (encode ''hello '')"
  shows "chunkText encode ''hello world'' maxTokens = ['''', ''hello'', ''world'']"
  using assms
  by (simp add: chunkText_def split_hello_world_spaces split_hello_world_paragraphs Let_def)

theorem chunkText_empty_segment_witness:
  "1 < length (byte_encode ''hello world'') \<and> 1 < length (byte_encode ''hello '') \<and>
   chunkText byte_encode ''hello world'' 1 = ['''', ''hello'', ''world'']"
  using chunkText_empty_segment [of 1 byte_encode] by (simp add: byte_encode_def)

section \<open>Properties of the lexical ranker\<close>

lemma js_insert_descending:
  fixes f :: "'a \<Rightarrow> real"
  shows "js_insert (\<lambda>a b. f b - f a) x ys = insort_key (\<lambda>x. - f x) x ys"
  by (induction ys) auto

lemma js_sort_descending:
  fixes f :: "'a \<Rightarrow> real"
  shows "js_sort (\<lambda>a b. f b - f a) xs = sort_key (\<lambda>x. - f x) xs"
  unfolding js_sort_def by (induction xs) (simp_all add: js_insert_descending)

lemma filter_positive_take:
  fixes f :: "'a \<Rightarrow> real"
  assumes "sorted (map (\<lambda>x. - f x) xs)"
  shows "filter (\<lambda>x. 0 < f x) (take k xs) = take k (filter (\<lambda>x. 0 < f x) xs)"
  using assms
proof (induction xs arbitrary: k)
  case Nil
  then show ?case by simp
next
  case (Cons x xs)
  show ?case
  proof (cases k)
    case 0
    then show ?thesis by simp
  next
    case (Suc j)
    show ?thesis
    proof (cases "0 < f x")
      case True
      with Cons Suc show ?thesis by simp
    next
      case False
      with Cons.prems have "\<forall>y \<in> set xs. \<not> 0 < f y" by fastforce
      then have "filter (\<lambda>x. 0 < f x) xs = []" "filter (\<lambda>x. 0 < f x) (take j xs) = []"
        by (auto simp: filter_empty_conv dest: in_set_takeD)
      with False Suc show ?thesis by simp
    qed
  qed
qed

lemma fold_weighted_sum:
  fixes g :: "'a \<Rightarrow> real \<Rightarrow> real"
  shows "fold (\<lambda>(field, weight) score. score + g field weight) ws a =
         a + (\<Sum>(field, weight) \<leftarrow> ws. g field weight)"
  by (induction ws arbitrary: a) (auto simp: algebra_simps)

lemma sorted_descending_wrt:
  fixes f :: "'a \<Rightarrow> real"
  shows "sorted (map (\<lambda>x. - f x) xs) \<longleftrightarrow> sorted_wrt (\<lambda>a b. f b \<le> f a) xs"
  by (induction xs) auto

text \<open>
  Claim C6.  \<open>search\<close> returns the first \<open>topK\<close> documents of a ranking that holds
  exactly the scored documents whose total is greater than 0, in descending order of the
  total, documents of equal total in the order of the document list; the total of a
  document is the sum over the configured fields of the field score times the field weight.
\<close>

theorem search_ranking:
  fixes bm25_score :: "string list list \<Rightarrow> string list \<Rightarrow> nat \<Rightarrow> real"
    and r :: "'doc ranker" and topK :: nat
  shows "\<exists>ranked.
     search bm25_score r query topK = take topK (map fst ranked) \<and>
     set ranked = {item \<in> set (scored_documents bm25_score r query). 0 < snd item} \<and>
     sorted_wrt (\<lambda>a b. snd b \<le> snd a) ranked \<and>
     (\<forall>k. filter (\<lambda>item. snd item = k) ranked =
          filter (\<lambda>item. snd item = k \<and> 0 < k) (scored_documents bm25_score r query)) \<and>
     scored_documents bm25_score r query =
       map (\<lambda>(idx, doc).
              (doc, \<Sum>(field, weight) \<leftarrow> fieldWeights r.
                       bm25_score (bm25Models r field) (tokenize query) idx * weight))
           (enumerate 0 (corpus_documents r))"
proof -
  define scored where "scored = scored_documents bm25_score r query"
  define sorted_all where "sorted_all = sort_key (\<lambda>item. - snd item) scored"
  define ranked where "ranked = filter (\<lambda>item. 0 < snd item) sorted_all"
  have sorted_all: "sorted (map (\<lambda>item. - snd item) sorted_all)"
    unfolding sorted_all_def by simp
  have "search bm25_score r query topK =
          map fst (filter (\<lambda>item. 0 < snd item) (take topK sorted_all))"
    unfolding search_def sorted_all_def scored_def by (simp add: js_sort_descending)
  also have "\<dots> = take topK (map fst ranked)"
    unfolding ranked_def using filter_positive_take [OF sorted_all] by (simp add: take_map)
  finally have result: "search bm25_score r query topK = take topK (map fst ranked)" .
  have members: "set ranked = {item \<in> set scored. 0 < snd item}"
    unfolding ranked_def sorted_all_def by auto
  have "sorted_wrt (\<lambda>a b. snd b \<le> snd a) sorted_all"
    using sorted_all by (simp add: sorted_descending_wrt)
  then have descending: "sorted_wrt (\<lambda>a b. snd b \<le> snd a) ranked"
    unfolding ranked_def by (rule sorted_wrt_filter)
  have stable: "filter (\<lambda>item. snd item = k) ranked =
                filter (\<lambda>item. snd item = k \<and> 0 < k) scored" for k
  proof -
    have "filter (\<lambda>item. snd item = k) ranked =
            filter (\<lambda>item. 0 < snd item) (filter (\<lambda>item. - snd item = - k) sorted_all)"
      unfolding ranked_def by (simp add: conj_commute)
    also have "\<dots> = filter (\<lambda>item. 0 < snd item) (filter (\<lambda>item. - snd item = - k) scored)"
      unfolding sorted_all_def by (simp only: sort_key_stable)
    also have "\<dots> = filter (\<lambda>item. snd item = k \<and> 0 < k) scored"
      by (auto intro: filter_cong)
    finally show ?thesis .
  qed
  have totals: "scored =
       map (\<lambda>(idx, doc).
              (doc, \<Sum>(field, weight) \<leftarrow> fieldWeights r.
                       bm25_score (bm25Models r field) (tokenize query) idx * weight))
           (enumerate 0 (corpus_documents r))"
    unfolding scored_def scored_documents_def document_score_def
    by (simp add: fold_weighted_sum)
  from result members descending stable totals show ?thesis
    unfolding scored_def by blast
qed

theorem search_ranking_witness:
  "search match_count (BM25Ranker document_field example_documents default_weights) ''OAuth login'' 5 =
     [example_documents ! 0] \<and>
   (\<exists>ranked.
     [example_documents ! 0] = take 5 (map fst ranked) \<and>
     set ranked = {item \<in> set (scored_documents match_count
                        (BM25Ranker document_field example_documents default_weights) ''OAuth login''). 0 < snd item} \<and>
     sorted_wrt (\<lambda>a b. snd b \<le> snd a) ranked \<and>
     (\<forall>k. filter (\<lambda>item. snd item = k) ranked =
          filter (\<lambda>item. snd item = k \<and> 0 < k) (scored_documents match_count
                        (BM25Ranker document_field example_documents default_weights) ''OAuth login'')))"
proof -
  have ev: "search match_count (BM25Ranker document_field example_documents default_weights) ''OAuth login'' 5 =
     [example_documents ! 0]" by code_simp
  from search_ranking [of match_count "BM25Ranker document_field example_documents default_weights" "''OAuth login''" 5]
  show ?thesis unfolding ev by blast
qed

lemma sum_list_skip_zero:
  fixes g :: "'a \<Rightarrow> real"
  assumes "\<forall>x \<in> set xs. \<not> P x \<longrightarrow> g x = 0"
  shows "sum_list (map g xs) = sum_list (map g (filter P xs))"
  using assms by (induction xs) auto

lemma bm25_standard_no_tokens:
  assumes "idx < length corpus" and "corpus ! idx = []"
  shows "bm25_standard k1 b corpus queryTokens idx = 0"
proof -
  have "bm25_term k1 b corpus [] t = 0" for t
    by (simp add: bm25_term_def term_frequency_def)
  then have "(\<Sum>t \<leftarrow> queryTokens. bm25_term k1 b corpus [] t) = 0"
    by (induction queryTokens) simp_all
  with assms show ?thesis by (simp add: bm25_standard_def js_index_def)
qed



text \<open>
  The modelled BM25 on the example of the specification: for the query
  \<^verbatim>\<open>"OAuth login"\<close> the first document has a positive score and the second has none.
\<close>

lemma example_query: "tokenize ''OAuth login'' = [''oauth'', ''login'']"
  by code_simp

lemma example_title_corpus:
  "bm25Models (BM25Ranker document_field example_documents default_weights) ''title'' =
     [[''auth'', ''guide''], [''pricing'']]"
  by code_simp

lemma example_content_corpus:
  "bm25Models (BM25Ranker document_field example_documents default_weights) ''content'' =
     [[''login'', ''with'', ''oauth'', ''tokens''], [''monthly'', ''subscription'', ''cost'']]"
  by code_simp

lemma bm25_standard_example:
  assumes "0 \<le> k1" and "0 \<le> b" and "b \<le> 1"
  shows "search (bm25_standard k1 b)
           (BM25Ranker document_field example_documents default_weights) ''OAuth login'' 5 =
         [example_documents ! 0]"
proof -
  let ?R = "BM25Ranker document_field example_documents default_weights"
  let ?C = "[[''login'', ''with'', ''oauth'', ''tokens''], [''monthly'', ''subscription'', ''cost'']]"
  have avg: "average_length ?C = 7 / 2" by (simp add: average_length_def)
  have idf: "inverse_document_frequency ?C t = ln 2" if "t = ''oauth'' \<or> t = ''login''" for t
    using that by (auto simp: inverse_document_frequency_def document_frequency_def)
  have denom: "0 < 1 + k1 * (1 - b + b * 4 / (7 / 2))"
  proof -
    have "0 \<le> 1 - b + b * 4 / (7 / 2)" using assms by simp
    with assms(1) have "0 \<le> k1 * (1 - b + b * 4 / (7 / 2))" by (rule mult_nonneg_nonneg)
    then show ?thesis by simp
  qed
  have positive: "0 < bm25_term k1 b ?C (?C ! 0) t" if "t = ''oauth'' \<or> t = ''login''" for t
  proof -
    have "bm25_term k1 b ?C (?C ! 0) t = ln 2 * (k1 + 1) / (1 + k1 * (1 - b + b * 4 / (7 / 2)))"
      using that by (auto simp: bm25_term_def term_frequency_def idf avg)
    moreover have "0 < ln (2::real) * (k1 + 1)" using assms(1) by simp
    ultimately show ?thesis using denom by simp
  qed
  define s where "s = bm25_standard k1 b ?C [''oauth'', ''login''] 0"
  have s: "0 < s"
    unfolding s_def using positive [of "''oauth''"] positive [of "''login''"]
    by (simp add: bm25_standard_def js_index_def)
  have other: "bm25_standard k1 b ?C [''oauth'', ''login''] (Suc 0) = 0"
    by (simp add: bm25_standard_def js_index_def bm25_term_def term_frequency_def)
  have titles: "bm25_standard k1 b [[''auth'', ''guide''], [''pricing'']] [''oauth'', ''login''] 0 = 0"
    "bm25_standard k1 b [[''auth'', ''guide''], [''pricing'']] [''oauth'', ''login''] (Suc 0) = 0"
    by (simp_all add: bm25_standard_def js_index_def bm25_term_def term_frequency_def)
  have docs: "corpus_documents ?R = [example_documents ! 0, example_documents ! 1]"
    and weights: "fieldWeights ?R = [(''title'', 2), (''content'', 1)]"
    by (simp_all add: BM25Ranker_def default_weights_def example_documents_def)
  have "scored_documents (bm25_standard k1 b) ?R ''OAuth login'' =
          [(example_documents ! 0, s), (example_documents ! 1, 0)]"
    unfolding scored_documents_def document_score_def docs weights example_query
      example_title_corpus example_content_corpus
    by (simp add: example_title_corpus example_content_corpus titles other s_def)
  then show ?thesis
    unfolding search_def using s by (simp add: js_sort_def)
qed

section \<open>Properties of the semantic search\<close>

lemma to_double_zero [simp]: "to_double 0 = Num 0"
  by (simp add: to_double_def)

lemma two_pow_powr: "two_pow k = 2 powr real_of_int k"
proof (cases "0 \<le> k")
  case True
  then have "real_of_int k = real (nat k)" by simp
  then have "2 powr real_of_int k = (2::real) ^ nat k"
    by (simp only: powr_realpow zero_less_numeral)
  with True show ?thesis by (simp add: two_pow_def)
next
  case False
  then have "real_of_int k = - real (nat (- k))" by simp
  then have "2 powr real_of_int k = 1 / (2::real) ^ nat (- k)"
    by (simp only: powr_minus powr_realpow zero_less_numeral inverse_eq_divide)
  with False show ?thesis by (simp add: two_pow_def)
qed

lemma binary_exponent_eq:
  assumes "two_pow k \<le> \<bar>x\<bar>" and "\<bar>x\<bar> < two_pow (k + 1)"
  shows "binary_exponent x = k"
proof -
  have pos: "0 < \<bar>x\<bar>"
    using assms(1) by (simp add: two_pow_powr) (smt (verit) powr_gt_zero)
  have "real_of_int k \<le> log 2 \<bar>x\<bar>"
    using assms(1) pos by (simp add: two_pow_powr le_log_iff)
  moreover have "log 2 \<bar>x\<bar> < real_of_int k + 1"
    using assms(2) pos by (simp add: two_pow_powr log_less_iff add.commute)
  ultimately show ?thesis
    unfolding binary_exponent_def by (rule floor_unique)
qed

lemma to_double_one: "to_double 1 = Num 1"
  by (simp add: to_double_def binary_exponent_def two_pow_def round_half_even_def)

lemma to_double_minus_one: "to_double (- 1) = Num (- 1)"
  by (simp add: to_double_def binary_exponent_def two_pow_def round_half_even_def)

lemma js_mul_zero_left: "js_mul (Num 0) y = Num 0 \<or> js_mul (Num 0) y = NaN"
  by (cases y) simp_all

lemma js_mul_zero_right: "js_mul x (Num 0) = Num 0 \<or> js_mul x (Num 0) = NaN"
  by (cases x) simp_all

lemma js_div_zero_or_nan:
  assumes "x = Num 0 \<or> x = NaN" and "y = Num 0 \<or> y = NaN"
  shows "js_div x y = NaN"
  using assms by auto

lemma dot_fold_zero:
  assumes "acc = Num 0 \<or> acc = NaN"
    and "(\<forall>a \<in> set vecA. a = 0) \<or> (\<forall>b \<in> set vecB. b = 0)"
  shows "fold (\<lambda>(i, a) sum.
             js_add sum (case js_index vecB i of None \<Rightarrow> NaN | Some b \<Rightarrow> js_mul (Num a) (Num b)))
          (enumerate n vecA) acc \<in> {Num 0, NaN}"
  using assms
proof (induction vecA arbitrary: n acc)
  case Nil
  then show ?case by auto
next
  case (Cons a vecA)
  have "(case js_index vecB n of None \<Rightarrow> NaN | Some b \<Rightarrow> js_mul (Num a) (Num b)) \<in> {Num 0, NaN}"
  proof (cases "n < length vecB")
    case True
    with Cons.prems(2) have "a * vecB ! n = 0" by (auto dest: nth_mem)
    then have "to_double (a * vecB ! n) = Num 0" by (simp only: to_double_zero)
    with True show ?thesis by (simp add: js_index_def del: mult_eq_0_iff)
  next
    case False
    then show ?thesis by (simp add: js_index_def)
  qed
  with Cons.prems(1)
  have "js_add acc (case js_index vecB n of None \<Rightarrow> NaN | Some b \<Rightarrow> js_mul (Num a) (Num b)) = Num 0 \<or>
        js_add acc (case js_index vecB n of None \<Rightarrow> NaN | Some b \<Rightarrow> js_mul (Num a) (Num b)) = NaN"
    by auto
  moreover from Cons.prems(2) have "(\<forall>a \<in> set vecA. a = 0) \<or> (\<forall>b \<in> set vecB. b = 0)" by auto
  ultimately show ?case using Cons.IH by simp
qed

lemma dotProduct_zero:
  "(\<forall>a \<in> set vecA. a = 0) \<or> (\<forall>b \<in> set vecB. b = 0) \<Longrightarrow>
   dotProduct vecA vecB = Num 0 \<or> dotProduct vecA vecB = NaN"
  unfolding dotProduct_def using dot_fold_zero [of "Num 0" vecA vecB 0] by simp

lemma squares_fold_zero:
  "\<forall>a \<in> set vec. a = 0 \<Longrightarrow> fold (\<lambda>a sum. js_add sum (js_mul (Num a) (Num a))) vec (Num 0) = Num 0"
  by (induction vec) simp_all

lemma magnitude_zero_vector:
  assumes "\<forall>a \<in> set vec. a = 0"
  shows "magnitude vec = Num 0"
  unfolding magnitude_def squares_fold_zero [OF assms] by simp

lemma magnitude_unit_one: "magnitude [1, 0] = Num 1" "magnitude [0, 1] = Num 1"
  by (simp_all add: magnitude_def to_double_one)

lemma cosine_same: "cosineSimilarity [1, 0] [1, 0] = Num 1"
  by (simp add: cosineSimilarity_def magnitude_unit_one dotProduct_def js_index_def to_double_one)

lemma cosine_orthogonal: "cosineSimilarity [1, 0] [0, 1] = Num 0"
  by (simp add: cosineSimilarity_def magnitude_unit_one dotProduct_def js_index_def to_double_one)

lemma round_half_even_near:
  assumes "of_int n - 1 / 2 < y" and "y < of_int n + 1 / 2"
  shows "round_half_even y = n"
proof (cases "of_int n \<le> y")
  case True
  with assms have "\<lfloor>y\<rfloor> = n" by (intro floor_unique) auto
  with assms show ?thesis by (simp add: round_half_even_def)
next
  case False
  with assms have "\<lfloor>y\<rfloor> = n - 1" by (intro floor_unique) auto
  with assms False show ?thesis by (simp add: round_half_even_def)
qed

lemma to_double_finite:
  assumes "two_pow k \<le> \<bar>x\<bar>" and "\<bar>x\<bar> < two_pow (k + 1)"
    and "e = max (k - 52) (- 1074)"
    and "of_int n - 1 / 2 < x / two_pow e" and "x / two_pow e < of_int n + 1 / 2"
    and "\<bar>of_int n * two_pow e\<bar> < two_pow 1024"
  shows "to_double x = Num (of_int n * two_pow e)"
proof -
  have "0 < two_pow k" by (simp add: two_pow_def)
  with assms(1) have "x \<noteq> 0" by auto
  moreover have "binary_exponent x = k" using assms(1,2) by (rule binary_exponent_eq)
  moreover have "round_half_even (x / two_pow e) = n" using assms(4,5) by (rule round_half_even_near)
  ultimately show ?thesis
    using assms(3,6) by (simp add: to_double_def Let_def)
qed

lemma to_double_overflow:
  assumes "two_pow k \<le> x" and "x < two_pow (k + 1)"
    and "e = max (k - 52) (- 1074)"
    and "of_int n - 1 / 2 < x / two_pow e" and "x / two_pow e < of_int n + 1 / 2"
    and "two_pow 1024 \<le> \<bar>of_int n * two_pow e\<bar>"
  shows "to_double x = PosInf"
proof -
  have "0 < two_pow k" by (simp add: two_pow_def)
  with assms(1) have pos: "0 < x" by auto
  moreover have "binary_exponent x = k" using assms(1,2) pos by (intro binary_exponent_eq) auto
  moreover have "round_half_even (x / two_pow e) = n" using assms(4,5) by (rule round_half_even_near)
  ultimately show ?thesis
    using assms(3,6) by (simp add: to_double_def Let_def)
qed

lemma to_double_two: "to_double 2 = Num 2"
  using to_double_finite [of 1 2 "- 51" "4503599627370496"] by (simp add: two_pow_def)

lemma sqrt_two_bounds:
  "6369051672525772.5 / 4503599627370496 < sqrt 2" "sqrt 2 < 6369051672525773.5 / 4503599627370496"
  by (rule real_less_rsqrt, simp add: power2_eq_square)
     (rule real_less_lsqrt, simp_all add: power2_eq_square)

lemma to_double_sqrt_two: "to_double (sqrt 2) = Num (6369051672525773 / 4503599627370496)"
proof -
  have "1 \<le> sqrt 2" "sqrt 2 < 2"
    by (simp, rule real_less_lsqrt) simp_all
  then have "two_pow 0 \<le> \<bar>sqrt 2\<bar>" "\<bar>sqrt 2\<bar> < two_pow (0 + 1)" by (simp_all add: two_pow_def)
  from to_double_finite [OF this, of "- 52" 6369051672525773] sqrt_two_bounds
  show ?thesis by (simp add: two_pow_def field_simps)
qed

lemma magnitude_ones: "magnitude [1, 1] = Num (6369051672525773 / 4503599627370496)"
  by (simp add: magnitude_def to_double_one to_double_two to_double_sqrt_two)

lemma magnitude_ones_squared:
  "js_mul (magnitude [1, 1]) (magnitude [1, 1]) = Num (4503599627370497 / 2251799813685248)"
  unfolding magnitude_ones js_mul.simps
  using to_double_finite [of 1 "6369051672525773 / 4503599627370496 * (6369051672525773 / 4503599627370496)"
          "- 51" 4503599627370497]
  by (simp add: two_pow_def)

lemma cosine_ones: "cosineSimilarity [1, 1] [1, 1] = Num (9007199254740990 / 9007199254740992)"
proof -
  have dot: "dotProduct [1, 1] [1, 1] = Num 2"
    by (simp add: dotProduct_def js_index_def to_double_one to_double_two)
  have "to_double (2 / (4503599627370497 / 2251799813685248)) = Num (9007199254740990 / 9007199254740992)"
    using to_double_finite [of "- 1" "2 / (4503599627370497 / 2251799813685248)" "- 53" 9007199254740990]
    by (simp add: two_pow_def)
  then show ?thesis
    unfolding cosineSimilarity_def Let_def dot magnitude_ones_squared by simp
qed

lemma cosine_overflow: "cosineSimilarity [2 ^ 600] [2 ^ 600] = NaN"
proof -
  define x :: real where "x = 2 ^ 600"
  have sq: "to_double (x * x) = PosInf"
    using to_double_overflow [of 1200 "2 ^ 600 * 2 ^ 600" 1148 4503599627370496]
    by (simp add: two_pow_def x_def)
  have "cosineSimilarity [x] [x] = NaN"
    by (simp add: cosineSimilarity_def magnitude_def dotProduct_def js_index_def sq)
  then show ?thesis by (simp only: x_def)
qed

lemma cosine_underflow: "cosineSimilarity [1 / 2 ^ 600] [1] = PosInf"
proof -
  define x :: real where "x = 1 / 2 ^ 600"
  have pos: "0 < x" by (simp add: x_def)
  have sq: "to_double (x * x) = Num 0"
    using to_double_finite [of "- 1200" "1 / 2 ^ 600 * (1 / 2 ^ 600)" "- 1074" 0]
    by (simp add: two_pow_def x_def)
  have small: "to_double x = Num x"
    using to_double_finite [of "- 600" "1 / 2 ^ 600" "- 652" 4503599627370496]
    by (simp add: two_pow_def x_def)
  have "magnitude [x] = Num 0"
    by (simp add: magnitude_def sq)
  moreover have "magnitude [1] = Num 1"
    by (simp add: magnitude_def to_double_one)
  moreover have "dotProduct [x] [1] = Num x"
    by (simp add: dotProduct_def js_index_def small)
  ultimately have "cosineSimilarity [x] [1] = PosInf"
    using pos by (simp add: cosineSimilarity_def)
  then show ?thesis by (simp only: x_def)
qed

lemma dot_ones: "dotProduct [1, 1] [1, 1] = Num 2"
  by (simp add: dotProduct_def js_index_def to_double_one to_double_two)




section \<open>Properties of the crawler and of the knowledge base\<close>

lemma aligned_arrays_snoc:
  assumes "aligned_arrays e docs vecs" and "url v = url d"
    and "fst (e (content d) w) = Some (embedding v)"
  shows "aligned_arrays e (docs @ [d]) (vecs @ [v])"
proof -
  from assms(1) have len: "length vecs = length docs"
    and old: "\<And>i. i < length docs \<Longrightarrow>
                url (vecs ! i) = url (docs ! i) \<and>
                (\<exists>w. fst (e (content (docs ! i)) w) = Some (embedding (vecs ! i)))"
    unfolding aligned_arrays_def by simp_all
  have "url ((vecs @ [v]) ! i) = url ((docs @ [d]) ! i) \<and>
        (\<exists>w. fst (e (content ((docs @ [d]) ! i)) w) = Some (embedding ((vecs @ [v]) ! i)))"
    if "i < length (docs @ [d])" for i
  proof (cases "i < length docs")
    case True
    with old [OF True] len show ?thesis by (simp add: nth_append)
  next
    case False
    with that have "i = length docs" by simp
    with len assms(2,3) show ?thesis by (auto simp: nth_append)
  qed
  with len show ?thesis unfolding aligned_arrays_def by simp
qed

lemma aligned_append_chunk:
  assumes "aligned e st" and "fst (e chunk w) = Some emb"
  shows "aligned e (append_chunk u src chunk emb st)"
  using aligned_arrays_snoc [of e "documents st" "vectorStore st"
      "\<lparr> url = u, embedding = emb \<rparr>"
      "\<lparr> url = u, title = u, content = chunk, source = src \<rparr>" w] assms
  by (simp add: aligned_def append_chunk_def)

lemma add_chunks_aligned:
  assumes "add_chunks E u src chunks (st, w) = (st', w')"
    and "aligned (createEmbedding E) st"
  shows "aligned (createEmbedding E) st'"
  using assms
proof (induction chunks arbitrary: st w)
  case Nil
  then show ?case by simp
next
  case (Cons chunk chunks)
  obtain r w1 where r: "createEmbedding E chunk w = (r, w1)" by (cases "createEmbedding E chunk w")
  show ?case
  proof (cases r)
    case None
    with Cons r show ?thesis by simp
  next
    case (Some emb)
    with r have "aligned (createEmbedding E) (append_chunk u src chunk emb st)"
      using aligned_append_chunk [OF Cons.prems(2), of chunk w emb u src] by simp
    with Cons.IH [of "append_chunk u src chunk emb st" w1] Cons.prems(1) r Some
    show ?thesis by simp
  qed
qed

lemma interaction_loop_aligned:
  assumes "interaction_loop E opts page u depth els (c, md, vis, st, w) = (c', md', vis', st', w')"
    and "aligned (createEmbedding E) st"
  shows "aligned (createEmbedding E) st'"
  using assms
proof (induction els arbitrary: c md vis st w)
  case Nil
  then show ?case by simp
next
  case (Cons el els)
  show ?case
  proof (cases "c \<ge> maxInteractions opts")
    case True
    with Cons.prems show ?thesis by simp
  next
    case False
    obtain r w1 where r: "interact E page el w = (r, w1)" by (cases "interact E page el w")
    show ?thesis
    proof (cases r)
      case None
      with Cons.prems False r Cons.IH [of c md vis st w1] show ?thesis by simp
    next
      case (Some found)
      obtain newUrl newHtml where found: "found = (newUrl, newHtml)" by (cases found)
      show ?thesis
      proof (cases "htmlToMarkdown E newHtml = md")
        case True
        with Cons.prems False r Some found Cons.IH [of c md vis st w1] show ?thesis by simp
      next
        case changed: False
        obtain st2 w2 where added:
          "add_chunks E newUrl (''interaction:'' @ category el @ '':'' @ element_text el)
             (chunkText (encode E) (htmlToMarkdown E newHtml) (maxTokens opts)) (st, w1) = (st2, w2)"
          by (cases "add_chunks E newUrl (''interaction:'' @ category el @ '':'' @ element_text el)
             (chunkText (encode E) (htmlToMarkdown E newHtml) (maxTokens opts)) (st, w1)")
        from add_chunks_aligned [OF added Cons.prems(2)]
        have st2: "aligned (createEmbedding E) st2" .
        obtain ok w3 where went: "goBack E page u w2 = (ok, w3)" by (cases "goBack E page u w2")
        from Cons.prems(1) False r Some found changed added went
        consider
          "interaction_loop E opts page u depth els
             (c + 1, htmlToMarkdown E newHtml, insert newUrl vis, st2, w3) = (c', md', vis', st', w')"
        | "interaction_loop E opts page u depth els
             (c, htmlToMarkdown E newHtml, insert newUrl vis, st2, w3) = (c', md', vis', st', w')"
        | "interaction_loop E opts page u depth els
             (c + 1, htmlToMarkdown E newHtml, vis, st2, w2) = (c', md', vis', st', w')"
          by (cases ok) (auto simp: Let_def split: if_splits)
        then show ?thesis
          using Cons.IH st2 by cases blast+
      qed
    qed
  qed
qed


lemma aligned_elements_update [simp]:
  "aligned e (st\<lparr> interactiveElementsMap := m \<rparr>) = aligned e st"
  by (simp add: aligned_def)

lemma crawl_page_aligned:
  assumes "crawl_page E opts page u depth (vis, st, w) = (links, vis', st', w')"
    and "aligned (createEmbedding E) st"
  shows "aligned (createEmbedding E) st'"
proof -
  obtain r w1 where r: "navigate E page u w = (r, w1)" by (cases "navigate E page u w")
  show ?thesis
  proof (cases r)
    case None
    with assms r show ?thesis by (simp add: crawl_page_def)
  next
    case (Some html)
    obtain st2 w2 where added:
      "add_chunks E u ''initial'' (chunkText (encode E) (htmlToMarkdown E html) (maxTokens opts))
         (st, w1) = (st2, w2)"
      by (cases "add_chunks E u ''initial''
                   (chunkText (encode E) (htmlToMarkdown E html) (maxTokens opts)) (st, w1)")
    obtain els w3 where els: "exploreInteractiveElements E page w2 = (els, w3)"
      by (cases "exploreInteractiveElements E page w2")
    obtain c md vis4 st4 w4 where looped:
      "interaction_loop E opts page u depth els
         (0, htmlToMarkdown E html, vis,
          st2\<lparr> interactiveElementsMap := (interactiveElementsMap st2)(u \<mapsto> els) \<rparr>, w3) =
       (c, md, vis4, st4, w4)"
      by (metis prod_cases5)
    from add_chunks_aligned [OF added assms(2)]
    have "aligned (createEmbedding E)
            (st2\<lparr> interactiveElementsMap := (interactiveElementsMap st2)(u \<mapsto> els) \<rparr>)"
      by simp
    from interaction_loop_aligned [OF looped this]
    have st4: "aligned (createEmbedding E) st4" .
    from assms(1) r Some added els looped have "st' = st4"
      by (auto simp: crawl_page_def Let_def split: if_splits prod.splits option.splits)
    with st4 show ?thesis by simp
  qed
qed

lemma follow_links_invariant:
  assumes "\<And>link s raised s'. visit link s = Some (raised, s') \<Longrightarrow> I s \<Longrightarrow> I s'"
    and "follow_links visit links s = Some s'" and "I s"
  shows "I s'"
  using assms(2,3)
proof (induction links arbitrary: s)
  case Nil
  then show ?case by simp
next
  case (Cons link links)
  from Cons.prems(1) obtain raised s1 where visited: "visit link s = Some (raised, s1)"
    by (auto split: option.splits)
  from assms(1) [OF visited Cons.prems(2)] have s1: "I s1" .
  show ?case
  proof (cases raised)
    case True
    with Cons.prems(1) visited s1 show ?thesis by simp
  next
    case False
    with Cons.prems(1) visited have "follow_links visit links s1 = Some s'" by simp
    from Cons.IH [OF this s1] show ?thesis .
  qed
qed

lemma crawlDynamicSite_aligned:
  assumes "crawlDynamicSite fuel E opts u depth (vis, st, w) = Some (raised, vis', st', w')"
    and "aligned (createEmbedding E) st"
  shows "aligned (createEmbedding E) st'"
  using assms
proof (induction fuel arbitrary: u depth vis st w raised vis' st' w')
  case 0
  then show ?case by simp
next
  case (Suc fuel)
  show ?case
  proof (cases "u \<in> vis \<or> depth < 0")
    case True
    with Suc.prems show ?thesis by simp
  next
    case False
    obtain r w1 where r: "openPage E w = (r, w1)" by (cases "openPage E w")
    show ?thesis
    proof (cases r)
      case None
      with Suc.prems False r show ?thesis by auto
    next
      case (Some page)
      obtain links vis2 st2 w2 where paged:
        "crawl_page E opts page u depth (insert u vis, st, w1) = (links, vis2, st2, w2)"
        by (metis prod_cases4)
      from crawl_page_aligned [OF paged Suc.prems(2)]
      have st2: "aligned (createEmbedding E) st2" .
      from Suc.prems(1) False r Some paged obtain vis3 st3 w3 where followed:
        "follow_links (\<lambda>link s. crawlDynamicSite fuel E opts link (depth - 1) s) links (vis2, st2, w2) =
           Some (vis3, st3, w3)"
        and "st' = st3"
        by (auto split: option.splits)
      have "aligned (createEmbedding E) (fst (snd (vis3, st3, w3)))"
      proof (rule follow_links_invariant [where I = "\<lambda>s. aligned (createEmbedding E) (fst (snd s))", OF _ followed])
        fix link s raised s'
        assume "crawlDynamicSite fuel E opts link (depth - 1) s = Some (raised, s')"
          and "aligned (createEmbedding E) (fst (snd s))"
        then show "aligned (createEmbedding E) (fst (snd s'))"
          using Suc.IH [of link "depth - 1" "fst s" "fst (snd s)" "snd (snd s)" raised
                           "fst s'" "fst (snd s')" "snd (snd s')"]
          by simp
      next
        show "aligned (createEmbedding E) (fst (snd (vis2, st2, w2)))" using st2 by simp
      qed
      with \<open>st' = st3\<close> show ?thesis by simp
    qed
  qed
qed

lemma importKnowledgeBase_cases:
  assumes "importKnowledgeBase fs parse filePath st = (ok, st')"
  shows "(\<not> ok \<and> st' = st \<and>
            (fs filePath = None \<or>
             (\<exists>text. fs filePath = Some text \<and> (parse text = None \<or> parse text = Some JNull)))) \<or>
         (ok \<and> (\<exists>text docs vecs. fs filePath = Some text \<and> parse text = Some (JValue docs vecs) \<and>
                   st' = st\<lparr> documents := or_empty docs, vectorStore := or_empty vecs \<rparr>))"
  using assms
  by (auto simp: importKnowledgeBase_def split: option.splits parsed.splits)

lemma follow_links_total:
  assumes "\<And>link s. link \<in> set links \<Longrightarrow> \<exists>r. visit link s = Some r"
  shows "\<exists>s'. follow_links visit links s = Some s'"
  using assms
proof (induction links arbitrary: s)
  case Nil
  then show ?case by simp
next
  case (Cons link links)
  from Cons.prems [of link s] obtain raised s1 where "visit link s = Some (raised, s1)"
    by auto
  moreover from Cons.IH [of s1] Cons.prems
  have "\<exists>s'. follow_links visit links s1 = Some s'" by simp
  ultimately show ?case by auto
qed

lemma crawl_page_links:
  assumes "crawl_page E opts page u depth s = (links, vis', rest)"
  shows "length links \<le> 5 \<and> (\<forall>link \<in> set links. link \<notin> vis') \<and> (depth \<le> 0 \<longrightarrow> links = [])"
proof -
  have "link \<notin> vis'" if "link \<in> set links" for link
    using assms that
    by (auto simp: crawl_page_def Let_def split: prod.splits option.splits if_splits
             dest!: in_set_takeD)
  moreover have "length links \<le> 5"
    using assms
    by (auto simp: crawl_page_def Let_def split: prod.splits option.splits if_splits)
  moreover have "links = []" if "depth \<le> 0"
    using assms that
    by (auto simp: crawl_page_def Let_def split: prod.splits option.splits if_splits)
  ultimately show ?thesis by blast
qed

lemma crawlDynamicSite_returns:
  assumes "nat depth < fuel"
  shows "\<exists>result. crawlDynamicSite fuel E opts u depth s = Some result"
  using assms
proof (induction fuel arbitrary: u depth s)
  case 0
  then show ?case by simp
next
  case (Suc fuel)
  obtain vis st w where s: "s = (vis, st, w)" by (cases s)
  show ?case
  proof (cases "u \<in> vis \<or> depth < 0")
    case True
    with s have "crawlDynamicSite (Suc fuel) E opts u depth s = Some (False, vis, st, w)" by simp
    then show ?thesis by blast
  next
    case False
    obtain r w1 where r: "openPage E w = (r, w1)" by (cases "openPage E w")
    show ?thesis
    proof (cases r)
      case None
      with False r s show ?thesis by auto
    next
      case (Some page)
      obtain links vis2 rest where paged:
        "crawl_page E opts page u depth (insert u vis, st, w1) = (links, vis2, rest)"
        by (metis prod_cases3)
      have "\<exists>r. crawlDynamicSite fuel E opts link (depth - 1) s' = Some r"
        if "link \<in> set links" for link s'
      proof -
        from crawl_page_links [OF paged] that have "0 < depth" by force
        with Suc.prems have "nat (depth - 1) < fuel" by simp
        from Suc.IH [OF this] show ?thesis .
      qed
      from follow_links_total [of links "\<lambda>link s. crawlDynamicSite fuel E opts link (depth - 1) s"
             "(vis2, rest)", OF this]
      obtain s3 where "follow_links (\<lambda>link s. crawlDynamicSite fuel E opts link (depth - 1) s)
                          links (vis2, rest) = Some s3"
        by blast
      with False r Some paged s show ?thesis
        by (cases s3) (auto split: prod.splits)
    qed
  qed
qed

text \<open>
  Claim C8.  A call of \<open>crawlDynamicSite\<close> returns, whatever the site does: a call stack of
  \<open>depth + 1\<close> frames is enough (one frame when \<open>depth\<close> is negative).  A call on a
  visited URL or with a negative depth returns at once and changes nothing.  The links a
  page hands to the recursion are at most five, none of them visited at that moment, and
  there are none unless \<open>depth > 0\<close>; the recursive calls are made with \<open>depth - 1\<close>.
\<close>

theorem crawlDynamicSite_terminates:
  assumes "nat depth < fuel"
  shows "(\<exists>result. crawlDynamicSite fuel E opts u depth (vis, st, w) = Some result) \<and>
         (u \<in> vis \<or> depth < 0 \<longrightarrow>
            crawlDynamicSite fuel E opts u depth (vis, st, w) = Some (False, vis, st, w)) \<and>
         (\<forall>page s links vis' rest.
            crawl_page E opts page u depth s = (links, vis', rest) \<longrightarrow>
              length links \<le> 5 \<and> (\<forall>link \<in> set links. link \<notin> vis') \<and>
              (depth \<le> 0 \<longrightarrow> links = []))"
proof -
  from assms obtain n where "fuel = Suc n" by (cases fuel) auto
  then have "u \<in> vis \<or> depth < 0 \<longrightarrow>
            crawlDynamicSite fuel E opts u depth (vis, st, w) = Some (False, vis, st, w)"
    by simp
  moreover have "\<exists>result. crawlDynamicSite fuel E opts u depth (vis, st, w) = Some result"
    by (rule crawlDynamicSite_returns [OF assms])
  moreover have "\<forall>page s links vis' rest.
            crawl_page E opts page u depth s = (links, vis', rest) \<longrightarrow>
              length links \<le> 5 \<and> (\<forall>link \<in> set links. link \<notin> vis') \<and>
              (depth \<le> 0 \<longrightarrow> links = [])"
    by (intro allI impI) (rule crawl_page_links)
  ultimately show ?thesis by (intro conjI)
qed

theorem crawlDynamicSite_terminates_witness:
  "nat 2 < (3::nat) \<and>
   (\<exists>result. crawlDynamicSite 3 example_site example_options page_a 2 ({}, empty_rag, []) = Some result) \<and>
   map_option (\<lambda>(raised, vis, st, w). (raised, vis, map url (documents st), w))
     (crawlDynamicSite 3 example_site example_options page_a 2 ({}, empty_rag, [])) =
     Some (False, {page_a, page_b}, [page_a, page_a, page_b], page_b) \<and>
   crawlDynamicSite 3 example_site example_options page_a 2 ({page_a}, empty_rag, []) =
     Some (False, {page_a}, empty_rag, [])"
proof -
  have h: "nat 2 < (3::nat)" by simp
  have ev: "map_option (\<lambda>(raised, vis, st, w). (raised, vis, map url (documents st), w))
     (crawlDynamicSite 3 example_site example_options page_a 2 ({}, empty_rag, [])) =
     Some (False, {page_a, page_b}, [page_a, page_a, page_b], page_b)"
    by code_simp
  from crawlDynamicSite_terminates [OF h, of example_site example_options page_a "{}" empty_rag "[]"]
  have a: "\<exists>result. crawlDynamicSite 3 example_site example_options page_a 2 ({}, empty_rag, []) = Some result"
    by blast
  from crawlDynamicSite_terminates [OF h, of example_site example_options page_a "{page_a}" empty_rag "[]"]
  have b: "crawlDynamicSite 3 example_site example_options page_a 2 ({page_a}, empty_rag, []) =
     Some (False, {page_a}, empty_rag, [])"
    by blast
  from h a ev b show ?thesis by blast
qed

text \<open>
  Claim C5, as amended.  An interaction that succeeds and whose captured text equals the
  text captured last is skipped: nothing is appended, and \<open>interactionsCount\<close> is left as
  it was, so the interaction takes one element of the list and nothing of the budget
  \<open>maxInteractions\<close>.
\<close>

theorem unchanged_content_skipped:
  assumes "interactionsCount < maxInteractions opts"
    and "interact E page el w = (Some (newUrl, newHtml), w1)"
    and "htmlToMarkdown E newHtml = markdown"
  shows "interaction_loop E opts page u depth (el # els) (interactionsCount, markdown, visitedUrls, st, w) =
           interaction_loop E opts page u depth els (interactionsCount, markdown, visitedUrls, st, w1) \<and>
         interaction_loop E opts page u depth [el] (interactionsCount, markdown, visitedUrls, st, w) =
           (interactionsCount, markdown, visitedUrls, st, w1)"
  using assms by simp

theorem unchanged_content_skipped_witness:
  "(0::nat) < maxInteractions example_options \<and>
   interact example_site () idle_control page_a = (Some (page_a, ''page http://x/a''), page_a) \<and>
   htmlToMarkdown example_site ''page http://x/a'' = ''page http://x/a'' \<and>
   interaction_loop example_site example_options () page_a 0 [idle_control]
     (0, ''page http://x/a'', {page_a}, empty_rag, page_a) =
     (0, ''page http://x/a'', {page_a}, empty_rag, page_a)"
proof -
  have h1: "(0::nat) < maxInteractions example_options" by (simp add: example_options_def)
  have h2: "interact example_site () idle_control page_a = (Some (page_a, ''page http://x/a''), page_a)"
    by (simp add: example_site_def idle_control_def page_a_def)
  have h3: "htmlToMarkdown example_site ''page http://x/a'' = ''page http://x/a''"
    by (simp add: example_site_def)
  from unchanged_content_skipped [OF h1 h2 h3, of page_a 0 "[]" "{page_a}" empty_rag] h1 h2 h3
  show ?thesis by simp
qed

theorem duplicate_counts_toward_budget_counterexample:
  "maxInteractions example_options = 1 \<and>
   fst (interaction_loop example_site example_options () page_a 0 [idle_control]
          (0, ''page http://x/a'', {page_a}, empty_rag, page_a)) = 0 \<and>
   (case interaction_loop example_site example_options () page_a 0 [idle_control, more_control]
            (0, ''page http://x/a'', {page_a}, empty_rag, page_a) of
      (c, md, vis, st, w) \<Rightarrow> (c, map content (documents st), map source (documents st))) =
     (1, [''more of http://x/a''], [''interaction:buttons:More''])"
proof -
  have "maxInteractions example_options = 1" by (simp add: example_options_def)
  moreover have "fst (interaction_loop example_site example_options () page_a 0 [idle_control]
          (0, ''page http://x/a'', {page_a}, empty_rag, page_a)) = 0"
    by code_simp
  moreover have "(case interaction_loop example_site example_options () page_a 0 [idle_control, more_control]
            (0, ''page http://x/a'', {page_a}, empty_rag, page_a) of
      (c, md, vis, st, w) \<Rightarrow> (c, map content (documents st), map source (documents st))) =
     (1, [''more of http://x/a''], [''interaction:buttons:More''])"
    by code_simp
  ultimately show ?thesis by blast
qed

text \<open>
  Claim C9.  When the file cannot be read or parsed, \<open>importKnowledgeBase\<close> answers
  \<open>False\<close> and the object is unchanged; whenever it answers \<open>False\<close> the object is
  unchanged (this is also the answer for a file that holds \<^verbatim>\<open>null\<close>); and it answers
  \<open>True\<close> only after a parse that succeeded, with both arrays replaced by those of the file,
  or by the empty array where the file has none; every parse that gives a value other than
  \<^verbatim>\<open>null\<close> ends so.
\<close>

theorem importKnowledgeBase_all_or_nothing:
  assumes "importKnowledgeBase fs parse filePath st = (ok, st')"
  shows "((fs filePath = None \<or> (\<exists>text. fs filePath = Some text \<and> parse text = None)) \<longrightarrow>
            \<not> ok \<and> st' = st) \<and>
         (\<not> ok \<longrightarrow> st' = st) \<and>
         (ok \<longrightarrow>
            (\<exists>text docs vecs. fs filePath = Some text \<and> parse text = Some (JValue docs vecs) \<and>
               st' = st\<lparr> documents := or_empty docs, vectorStore := or_empty vecs \<rparr>)) \<and>
         ((\<exists>text docs vecs. fs filePath = Some text \<and> parse text = Some (JValue docs vecs)) \<longrightarrow> ok)"
  using importKnowledgeBase_cases [OF assms] by auto

theorem importKnowledgeBase_all_or_nothing_witness:
  "importKnowledgeBase example_fs example_parse ''missing.json''
     (append_chunk ''b'' ''initial'' ''y'' [1] empty_rag) =
     (False, append_chunk ''b'' ''initial'' ''y'' [1] empty_rag) \<and>
   importKnowledgeBase example_fs example_parse ''cut.json''
     (append_chunk ''b'' ''initial'' ''y'' [1] empty_rag) =
     (False, append_chunk ''b'' ''initial'' ''y'' [1] empty_rag) \<and>
   importKnowledgeBase example_fs example_parse ''null.json''
     (append_chunk ''b'' ''initial'' ''y'' [1] empty_rag) =
     (False, append_chunk ''b'' ''initial'' ''y'' [1] empty_rag) \<and>
   fst (importKnowledgeBase example_fs example_parse ''empty.json''
     (append_chunk ''b'' ''initial'' ''y'' [1] empty_rag)) \<and>
   documents (snd (importKnowledgeBase example_fs example_parse ''empty.json''
     (append_chunk ''b'' ''initial'' ''y'' [1] empty_rag))) = [] \<and>
   vectorStore (snd (importKnowledgeBase example_fs example_parse ''empty.json''
     (append_chunk ''b'' ''initial'' ''y'' [1] empty_rag))) = []"
proof -
  let ?st = "append_chunk ''b'' ''initial'' ''y'' [1] empty_rag"
  have missing: "example_fs ''missing.json'' = None" by (simp add: example_fs_def)
  have cut: "example_fs ''cut.json'' = Some ''{''" and "example_parse ''{'' = None"
    by (simp_all add: example_fs_def example_parse_def documents_only_text_def quoted_def)
  then have cut': "\<exists>text. example_fs ''cut.json'' = Some text \<and> example_parse text = None"
    by blast
  have null: "fst (importKnowledgeBase example_fs example_parse ''null.json'' ?st) = False"
    by (simp add: importKnowledgeBase_def example_fs_def example_parse_def)
  have empty: "fst (importKnowledgeBase example_fs example_parse ''empty.json'' ?st) = True"
    by (simp add: importKnowledgeBase_def example_fs_def example_parse_def)
  have e: "example_fs ''empty.json'' = Some ''{}''" "example_parse ''{}'' = Some (JValue None None)"
    by (simp_all add: example_fs_def example_parse_def)
  note inst = importKnowledgeBase_all_or_nothing [of example_fs example_parse _ ?st, OF prod.collapse [symmetric]]
  from inst [of "''missing.json''"] missing
  have a: "importKnowledgeBase example_fs example_parse ''missing.json'' ?st = (False, ?st)"
    by (simp add: prod_eq_iff)
  from inst [of "''cut.json''"] cut'
  have b: "importKnowledgeBase example_fs example_parse ''cut.json'' ?st = (False, ?st)"
    by (simp add: prod_eq_iff)
  from inst [of "''null.json''"] null
  have c: "importKnowledgeBase example_fs example_parse ''null.json'' ?st = (False, ?st)"
    by (simp add: prod_eq_iff)
  from inst [of "''empty.json''"] empty e
  have d: "snd (importKnowledgeBase example_fs example_parse ''empty.json'' ?st) =
             ?st\<lparr> documents := or_empty None, vectorStore := or_empty None \<rparr>"
    by auto
  from a b c d empty show ?thesis by (simp add: or_empty_def)
qed

text \<open>
  Claim C1, as amended.  From an aligned knowledge base, the two pushes made for a chunk
  give an aligned knowledge base, and so does a whole run of \<open>crawlDynamicSite\<close>.
  \<open>importKnowledgeBase\<close> keeps the knowledge base when it answers \<open>False\<close>; when it answers
  \<open>True\<close> it installs the arrays of the file unchecked, so the result is aligned exactly
  when the arrays of the file are.
\<close>

theorem knowledge_base_alignment:
  assumes "aligned (createEmbedding E) st"
  shows "(\<forall>chunk w emb u src.
            fst (createEmbedding E chunk w) = Some emb \<longrightarrow>
              aligned (createEmbedding E) (append_chunk u src chunk emb st)) \<and>
         (\<forall>fuel opts u depth vis w raised vis' st' w'.
            crawlDynamicSite fuel E opts u depth (vis, st, w) = Some (raised, vis', st', w') \<longrightarrow>
              aligned (createEmbedding E) st') \<and>
         (\<forall>fs parse filePath st'.
            importKnowledgeBase fs parse filePath st = (False, st') \<longrightarrow>
              aligned (createEmbedding E) st') \<and>
         (\<forall>fs parse filePath st'.
            importKnowledgeBase fs parse filePath st = (True, st') \<longrightarrow>
              (\<exists>text docs vecs. fs filePath = Some text \<and> parse text = Some (JValue docs vecs) \<and>
                 (aligned (createEmbedding E) st' \<longleftrightarrow>
                    aligned_arrays (createEmbedding E) (or_empty docs) (or_empty vecs))))"
proof (intro conjI allI impI)
  fix chunk w emb u src
  assume "fst (createEmbedding E chunk w) = Some emb"
  from aligned_append_chunk [OF assms this]
  show "aligned (createEmbedding E) (append_chunk u src chunk emb st)" .
next
  fix fuel opts u depth vis w raised vis' st' w'
  assume "crawlDynamicSite fuel E opts u depth (vis, st, w) = Some (raised, vis', st', w')"
  from crawlDynamicSite_aligned [OF this assms]
  show "aligned (createEmbedding E) st'" .
next
  fix fs parse filePath st'
  assume "importKnowledgeBase fs parse filePath st = (False, st')"
  from importKnowledgeBase_cases [OF this] assms
  show "aligned (createEmbedding E) st'" by auto
next
  fix fs parse filePath st'
  assume "importKnowledgeBase fs parse filePath st = (True, st')"
  from importKnowledgeBase_cases [OF this]
  obtain body docs vecs where "fs filePath = Some body" "parse body = Some (JValue docs vecs)"
    "st' = st\<lparr> documents := or_empty docs, vectorStore := or_empty vecs \<rparr>"
    by auto
  then show "\<exists>text docs vecs. fs filePath = Some text \<and> parse text = Some (JValue docs vecs) \<and>
                 (aligned (createEmbedding E) st' \<longleftrightarrow>
                    aligned_arrays (createEmbedding E) (or_empty docs) (or_empty vecs))"
    by (auto simp: aligned_def)
qed

lemma aligned_empty_rag: "aligned e empty_rag"
  by (simp add: aligned_def aligned_arrays_def empty_rag_def)

theorem knowledge_base_alignment_witness:
  "aligned (createEmbedding example_site) empty_rag \<and>
   (\<exists>raised vis' st' w'.
      crawlDynamicSite 3 example_site example_options page_a 2 ({}, empty_rag, []) =
        Some (raised, vis', st', w') \<and>
      aligned (createEmbedding example_site) st' \<and>
      map url (documents st') = [page_a, page_a, page_b] \<and>
      map url (vectorStore st') = [page_a, page_a, page_b]) \<and>
   aligned (createEmbedding example_site)
     (snd (importKnowledgeBase example_fs example_parse ''cut.json'' empty_rag)) \<and>
   aligned (createEmbedding example_site)
     (snd (importKnowledgeBase example_fs example_parse ''empty.json'' empty_rag))"
proof -
  note inst = knowledge_base_alignment [OF aligned_empty_rag, of example_site]
  have ev: "map_option (\<lambda>(raised, vis, st, w). (map url (documents st), map url (vectorStore st)))
     (crawlDynamicSite 3 example_site example_options page_a 2 ({}, empty_rag, [])) =
     Some ([page_a, page_a, page_b], [page_a, page_a, page_b])"
    by code_simp
  then have "crawlDynamicSite 3 example_site example_options page_a 2 ({}, empty_rag, []) \<noteq> None"
    by (cases "crawlDynamicSite 3 example_site example_options page_a 2 ({}, empty_rag, [])") simp_all
  then obtain r where r:
    "crawlDynamicSite 3 example_site example_options page_a 2 ({}, empty_rag, []) = Some r"
    by blast
  obtain raised vis' st' w' where parts: "r = (raised, vis', st', w')" by (cases r)
  from r parts have run:
    "crawlDynamicSite 3 example_site example_options page_a 2 ({}, empty_rag, []) =
       Some (raised, vis', st', w')"
    by simp
  from ev have urls: "map url (documents st') = [page_a, page_a, page_b]"
              "map url (vectorStore st') = [page_a, page_a, page_b]"
    unfolding run by simp_all
  from inst [THEN conjunct2, THEN conjunct1, rule_format, OF run]
  have "aligned (createEmbedding example_site) st'" .
  with run urls have crawl: "\<exists>raised vis' st' w'.
      crawlDynamicSite 3 example_site example_options page_a 2 ({}, empty_rag, []) =
        Some (raised, vis', st', w') \<and>
      aligned (createEmbedding example_site) st' \<and>
      map url (documents st') = [page_a, page_a, page_b] \<and>
      map url (vectorStore st') = [page_a, page_a, page_b]"
    by (intro exI [of _ raised] exI [of _ vis'] exI [of _ st'] exI [of _ w'] conjI)
  have "importKnowledgeBase example_fs example_parse ''cut.json'' empty_rag =
          (False, snd (importKnowledgeBase example_fs example_parse ''cut.json'' empty_rag))"
    by (simp add: importKnowledgeBase_def example_fs_def example_parse_def
          documents_only_text_def quoted_def)
  from inst [THEN conjunct2, THEN conjunct2, THEN conjunct1, rule_format, OF this]
  have cut: "aligned (createEmbedding example_site)
     (snd (importKnowledgeBase example_fs example_parse ''cut.json'' empty_rag))" .
  have empty: "aligned (createEmbedding example_site)
     (snd (importKnowledgeBase example_fs example_parse ''empty.json'' empty_rag))"
    by (simp add: importKnowledgeBase_def example_fs_def example_parse_def or_empty_def
          aligned_def aligned_arrays_def empty_rag_def)
  from aligned_empty_rag crawl cut empty show ?thesis by blast
qed

theorem import_breaks_alignment_counterexample:
  "aligned (createEmbedding example_site) empty_rag \<and>
   fst (importKnowledgeBase example_fs example_parse ''documents.json'' empty_rag) \<and>
   length (documents (snd (importKnowledgeBase example_fs example_parse ''documents.json'' empty_rag))) = 1 \<and>
   length (vectorStore (snd (importKnowledgeBase example_fs example_parse ''documents.json'' empty_rag))) = 0 \<and>
   \<not> aligned (createEmbedding example_site)
       (snd (importKnowledgeBase example_fs example_parse ''documents.json'' empty_rag))"
  by (simp add: aligned_empty_rag importKnowledgeBase_def example_fs_def example_parse_def
        documents_only_text_def quoted_def or_empty_def aligned_def aligned_arrays_def empty_rag_def)

section \<open>Properties of the hybrid fusion\<close>

text \<open>
  While no two lexical results share a key, the fusion ranks as intended: in the list
  returned, no document found by one search stands before a document found by both.
\<close>

lemma map_set_keys: "fst ` set (map_set m k v) = insert k (fst ` set m)"
proof (induction m)
  case Nil
  then show ?case by simp
next
  case (Cons e m)
  obtain k' v' where "e = (k', v')" by (cases e)
  with Cons show ?case by (cases "k' = k") auto
qed

lemma map_set_distinct: "distinct (map fst m) \<Longrightarrow> distinct (map fst (map_set m k v))"
  by (induction m) (auto simp: map_set_keys)

lemma map_set_entries:
  "distinct (map fst m) \<Longrightarrow>
   set (map_set m k v) = insert (k, v) {e \<in> set m. fst e \<noteq> k}"
  by (induction m) (auto simp: rev_image_eqI split: if_splits)

lemma add_semantic_inv:
  assumes "fusion_inv S {} m"
  shows "fusion_inv (insert (result_key d) S) {} (add_semantic d m)"
  using assms
  by (auto simp: fusion_inv_def add_semantic_def map_set_distinct map_set_entries map_set_keys)

lemma fold_add_semantic_inv:
  assumes "fusion_inv S {} m"
  shows "fusion_inv (S \<union> result_key ` set ds) {} (fold add_semantic ds m)"
  using assms
proof (induction ds arbitrary: S m)
  case Nil
  then show ?case by simp
next
  case (Cons d ds)
  from Cons.IH [OF add_semantic_inv [OF Cons.prems, of d]] show ?case by simp
qed

lemma add_bm25_inv:
  assumes "fusion_inv S B m" and "result_key d \<notin> B"
  shows "fusion_inv S (insert (result_key d) B) (add_bm25 d m)"
proof (cases "map_of m (result_key d)")
  case None
  then have "result_key d \<notin> fst ` set m" by (simp add: map_of_eq_None_iff)
  with assms have "result_key d \<notin> S" by (auto simp: fusion_inv_def)
  with assms None show ?thesis
    by (auto simp: fusion_inv_def add_bm25_def map_set_distinct map_set_entries map_set_keys)
next
  case (Some existing)
  from assms(1) have dist: "distinct (map fst m)" by (simp add: fusion_inv_def)
  from Some have mem: "(result_key d, existing) \<in> set m" by (rule map_of_SomeD)
  with assms have "result_key d \<in> S" and "result_key (doc existing) = result_key d"
    by (force simp: fusion_inv_def)+
  with assms Some show ?thesis
    by (auto simp: fusion_inv_def add_bm25_def map_set_distinct map_set_entries map_set_keys)
qed

lemma fold_add_bm25_inv:
  assumes "fusion_inv S B m" and "distinct (map result_key ds)"
    and "result_key ` set ds \<inter> B = {}"
  shows "fusion_inv S (B \<union> result_key ` set ds) (fold add_bm25 ds m)"
  using assms
proof (induction ds arbitrary: B m)
  case Nil
  then show ?case by simp
next
  case (Cons d ds)
  from Cons.prems have fresh: "result_key d \<notin> B" by auto
  from Cons.prems have "distinct (map result_key ds)"
    and "result_key ` set ds \<inter> insert (result_key d) B = {}"
    by auto
  from Cons.IH [OF add_bm25_inv [OF Cons.prems(1) fresh] this] show ?case by simp
qed

lemma combine_results_inv:
  assumes "distinct (map result_key bm25Results)"
  shows "fusion_inv (result_key ` set semanticResults) (result_key ` set bm25Results)
           (combine_results semanticResults bm25Results)"
proof -
  have "fusion_inv {} {} []" by (simp add: fusion_inv_def)
  from fold_add_semantic_inv [OF this, of semanticResults]
  have "fusion_inv (result_key ` set semanticResults) {} (fold add_semantic semanticResults [])"
    by simp
  from fold_add_bm25_inv [OF this assms] show ?thesis
    by (simp add: combine_results_def)
qed

lemma js_insert_set: "set (js_insert cmp x ys) = insert x (set ys)"
  by (induction ys) auto

lemma js_sort_set: "set (js_sort cmp xs) = set xs"
  unfolding js_sort_def by (induction xs) (simp_all add: js_insert_set)

lemma js_insert_both_first:
  assumes "sorted_wrt (\<lambda>a b. inBoth b \<longrightarrow> inBoth a) ys"
  shows "sorted_wrt (\<lambda>a b. inBoth b \<longrightarrow> inBoth a) (js_insert compare_combined x ys)"
  using assms
proof (induction ys)
  case Nil
  then show ?case by simp
next
  case (Cons y ys)
  show ?case
  proof (cases "compare_combined x y \<le> 0")
    case True
    then have "inBoth y \<longrightarrow> inBoth x" by (auto simp: compare_combined_def split: if_splits)
    with Cons.prems True show ?thesis by auto
  next
    case False
    then have "inBoth x \<longrightarrow> inBoth y" by (auto simp: compare_combined_def split: if_splits)
    with Cons False show ?thesis by (auto simp: js_insert_set)
  qed
qed

lemma js_sort_both_first:
  "sorted_wrt (\<lambda>a b. inBoth b \<longrightarrow> inBoth a) (js_sort compare_combined xs)"
  unfolding js_sort_def by (induction xs) (simp_all add: js_insert_both_first)

lemma fuse_priority_distinct_keys:
  assumes "distinct (map result_key bm25Results)"
  shows "sorted_wrt
           (\<lambda>a b. result_key b \<in> result_key ` set semanticResults \<inter> result_key ` set bm25Results \<longrightarrow>
                  result_key a \<in> result_key ` set semanticResults \<inter> result_key ` set bm25Results)
           (fuse semanticResults bm25Results topK)"
proof -
  let ?m = "combine_results semanticResults bm25Results"
  let ?both = "\<lambda>d. result_key d \<in> result_key ` set semanticResults \<inter> result_key ` set bm25Results"
  have flags: "inBoth c \<longleftrightarrow> ?both (doc c)" if "c \<in> snd ` set ?m" for c
  proof -
    from that obtain k where entry: "(k, c) \<in> set ?m" by auto
    from combine_results_inv [OF assms, of semanticResults] entry
    have "result_key (doc (snd (k, c))) = fst (k, c) \<and>
          (inBoth (snd (k, c)) \<longleftrightarrow>
             fst (k, c) \<in> result_key ` set semanticResults \<and>
             fst (k, c) \<in> result_key ` set bm25Results)"
      unfolding fusion_inv_def by blast
    then show ?thesis by simp
  qed
  have "sorted_wrt (\<lambda>a b. inBoth b \<longrightarrow> inBoth a) (js_sort compare_combined (map snd ?m))"
    by (rule js_sort_both_first)
  then have "sorted_wrt (\<lambda>a b. ?both (doc b) \<longrightarrow> ?both (doc a)) (js_sort compare_combined (map snd ?m))"
    by (rule sorted_wrt_mono_rel [rotated]) (use flags in \<open>auto simp: js_sort_set\<close>)
  then have "sorted_wrt (\<lambda>a b. ?both b \<longrightarrow> ?both a)
               (map doc (js_sort compare_combined (map snd ?m)))"
    by (simp add: sorted_wrt_map)
  then show ?thesis
    unfolding fuse_def by (rule sorted_wrt_take)
qed

lemma fusion_query_tokens: "tokenize ''questions'' = [''questions'']"
  by code_simp

lemma fusion_content_corpus:
  "bm25Models (BM25Ranker document_field (documents fusion_rag) [(''title'', 2), (''content'', 1)])
     ''content'' =
   [[''questions'', ''about'', ''pricing''],
    [''release'', ''notes'', ''and'', ''changes''],
    [''release'', ''notes'', ''and'', ''changes''],
    [''release'', ''notes'', ''and'', ''changes''],
    [''release'', ''notes'', ''and'', ''changes''],
    [''release'', ''notes'', ''and'', ''changes''],
    [''product'', ''documentation'', ''and'', ''frequently'', ''asked'', ''questions'', ''one''],
    [''product'', ''documentation'', ''and'', ''frequently'', ''asked'', ''questions'', ''two''],
    [''product'', ''documentation'', ''and'', ''frequently'', ''asked'', ''questions'', ''three'']]"
  by code_simp

lemma fusion_title_corpus:
  "bm25Models (BM25Ranker document_field (documents fusion_rag) [(''title'', 2), (''content'', 1)])
     ''title'' = [[], [], [], [], [], [], [], [], []]"
  by code_simp

lemma fusion_scores:
  "scored_documents match_count
     (BM25Ranker document_field (documents fusion_rag) [(''title'', 2), (''content'', 1)])
     ''questions'' =
   [(both_hit, 1), (filler ''p1'', 0), (filler ''p2'', 0), (filler ''p3'', 0), (filler ''p4'', 0),
    (filler ''p5'', 0), (faq_one, 1), (faq_two, 1), (faq_three, 1)]"
proof -
  have docs: "corpus_documents (BM25Ranker document_field (documents fusion_rag)
                 [(''title'', 2), (''content'', 1)]) =
              [both_hit, filler ''p1'', filler ''p2'', filler ''p3'', filler ''p4'', filler ''p5'',
               faq_one, faq_two, faq_three]"
    and weights: "fieldWeights (BM25Ranker document_field (documents fusion_rag)
                 [(''title'', 2), (''content'', 1)]) = [(''title'', 2), (''content'', 1)]"
    by (simp_all add: BM25Ranker_def fusion_rag_def)
  show ?thesis
    unfolding scored_documents_def document_score_def docs weights fusion_query_tokens
    by (simp add: fusion_content_corpus fusion_title_corpus match_count_def js_index_def)
qed

lemma fusion_bm25_results:
  "search match_count
     (BM25Ranker document_field (documents fusion_rag) [(''title'', 2), (''content'', 1)])
     ''questions'' 4 =
   [both_hit, faq_one, faq_two, faq_three]"
  unfolding search_def fusion_scores by (simp add: js_sort_def)

lemma fusion_semantic_results:
  "semanticSearch query_service fusion_rag ''questions'' 4 () =
     [Some both_hit, Some (filler ''p1''), Some (filler ''p2''), Some (filler ''p3'')]"
  by (simp add: semanticSearch_def query_service_def fusion_rag_def cosine_same cosine_orthogonal
        js_sort_def js_sub_def js_index_def to_double_one to_double_minus_one)

lemma fusion_ranked:
  "fuse [both_hit, filler ''p1'', filler ''p2'', filler ''p3'']
        [both_hit, faq_one, faq_two, faq_three] 2 = [faq_one, both_hit]"
  by code_simp

lemma fusion_keys_shared:
  "result_key faq_one = result_key faq_two \<and> result_key faq_two = result_key faq_three"
  by code_simp

lemma fusion_key_lexical_only:
  "result_key faq_one \<notin> result_key ` set [both_hit, filler ''p1'', filler ''p2'', filler ''p3'']"
  by code_simp

lemma fusion_key_both:
  "result_key both_hit \<in> result_key ` set [both_hit, faq_one, faq_two, faq_three]"
  by simp

text \<open>
  Claim C3 (a document found by both searches is placed before every document found by
  one).  The code does not keep this order when the lexical results hold the same key three
  times: the second and third occurrence find the key that the first one stored, mark the
  entry as found by both and raise its score above that of a true double hit.  On a
  knowledge base with three captures of one page that share their first 50 characters, the
  query \<^verbatim>\<open>"questions"\<close> with \<open>topK = 2\<close> gives four semantic results without these
  captures and four lexical results with them, and \<open>hybridSearch\<close> returns the capture,
  found by the lexical search only, before the document found by both.
\<close>

theorem hybridSearch_single_set_outranks:
  "semanticSearch query_service fusion_rag ''questions'' (2 * 2) () =
     [Some both_hit, Some (filler ''p1''), Some (filler ''p2''), Some (filler ''p3'')] \<and>
   search match_count
     (BM25Ranker document_field (documents fusion_rag) [(''title'', 2), (''content'', 1)])
     ''questions'' (2 * 2) = [both_hit, faq_one, faq_two, faq_three] \<and>
   (result_key faq_one = result_key faq_two \<and> result_key faq_two = result_key faq_three) \<and>
   result_key faq_one \<notin> result_key ` set [both_hit, filler ''p1'', filler ''p2'', filler ''p3''] \<and>
   result_key both_hit \<in> result_key ` set [both_hit, faq_one, faq_two, faq_three] \<and>
   hybridSearch query_service match_count fusion_rag ''questions'' 2 () = Some [faq_one, both_hit]"
proof -
  have four: "(2::nat) * 2 = 4" by simp
  have "hybridSearch query_service match_count fusion_rag ''questions'' 2 () =
          Some (fuse [both_hit, filler ''p1'', filler ''p2'', filler ''p3'']
                  [both_hit, faq_one, faq_two, faq_three] 2)"
    unfolding hybridSearch_def Let_def four fusion_semantic_results fusion_bm25_results by simp
  then have "hybridSearch query_service match_count fusion_rag ''questions'' 2 () =
          Some [faq_one, both_hit]"
    by (simp only: fusion_ranked)
  then show ?thesis
    unfolding four
    by (intro conjI fusion_semantic_results fusion_bm25_results fusion_keys_shared
          fusion_key_lexical_only fusion_key_both)
qed

end
